theory Spec2Isabelle
  imports Complex_Main
begin

section \<open>Growth planner: data model\<close>

text \<open>
  The repository holds three iterations of one page component. The file
  \<^verbatim>\<open>src/app/page.tsx\<close> is modelled in full; where the latest iteration (the
  redesigned page with derived points) differs in a function the development needs,
  that function is modelled as well under the suffix \<open>_v3\<close>.

  A JavaScript string is a sequence of UTF-16 code units. The literals of the source
  are Japanese, so a string is modelled as the list of its code units, written in
  hexadecimal; \<open>ascii\<close> embeds an ASCII literal.
\<close>

type_synonym jsstring = "nat list"

definition ascii :: "string \<Rightarrow> jsstring" where
  "ascii s = map of_char s"

text \<open>
  \<open>CategoryKey\<close> is the union of nine string literals; each constructor stands for
  the literal that \<open>key_string\<close> gives.
\<close>

datatype CategoryKey =
  Undou | Gakushuu | Shuukan | Shinkou | Ningenryoku | Kinsen | Suimin | Shokuji | Mentaru

record Quest =
  id' :: jsstring
  title :: jsstring
  "done" :: bool
  enabled :: bool

text \<open>
  The plan and state types are the same in every iteration apart from the quest they
  hold (the redesigned page adds display attributes to it), so they take the quest type
  as a parameter.
\<close>

record 'q DayPlan =
  day :: nat
  quests :: "'q list"

record Theme =
  backgroundColor :: jsstring
  textColor :: jsstring

record 'q AppState =
  selectedCategories :: "CategoryKey list"
  plans :: "'q DayPlan list"
  createdAt :: "jsstring option"
  theme :: "Theme option"

datatype ChatRole = User | Assistant

record ChatMsg =
  role :: ChatRole
  content :: jsstring

datatype Rank = Novice | Squire | Knight | Marquis | Duke | Sovereign

section \<open>Score and rank\<close>

fun calculateRank :: "int \<Rightarrow> Rank" where
  "calculateRank score =
     (if score \<ge> 1000 then Sovereign
      else if score \<ge> 500 then Duke
      else if score \<ge> 200 then Marquis
      else if score \<ge> 100 then Knight
      else if score \<ge> 50 then Squire
      else Novice)"

text \<open>The order of the tiers and their thresholds, as the redesigned page tabulates them.\<close>

definition rankOrder :: "Rank list" where
  "rankOrder = [Novice, Squire, Knight, Marquis, Duke, Sovereign]"

fun indexOf :: "'a list \<Rightarrow> 'a \<Rightarrow> int" where
  "indexOf [] x = -1"
| "indexOf (y # ys) x = (if y = x then 0 else (let r = indexOf ys x in if r < 0 then r else r + 1))"

fun thresholdByRank :: "Rank \<Rightarrow> int" where
  "thresholdByRank Novice = 0"
| "thresholdByRank Squire = 50"
| "thresholdByRank Knight = 100"
| "thresholdByRank Marquis = 200"
| "thresholdByRank Duke = 500"
| "thresholdByRank Sovereign = 1000"

definition addScore :: "int \<Rightarrow> int \<Rightarrow> int \<times> Rank" where
  "addScore currentScore points =
     (let newScore = currentScore + points; rank = calculateRank newScore
      in (newScore, rank))"

section \<open>Constants\<close>

fun key_string :: "CategoryKey \<Rightarrow> jsstring" where
  "key_string Undou =
     [0x904B, 0x52D5]"
| "key_string Gakushuu =
     [0x5B66, 0x7FD2]"
| "key_string Shuukan =
     [0x7FD2, 0x6163]"
| "key_string Shinkou =
     [0x4FE1, 0x4EF0]"
| "key_string Ningenryoku =
     [0x4EBA, 0x9593, 0x529B]"
| "key_string Kinsen =
     [0x91D1, 0x92AD]"
| "key_string Suimin =
     [0x7761, 0x7720]"
| "key_string Shokuji =
     [0x98DF, 0x4E8B]"
| "key_string Mentaru =
     [0x30E1, 0x30F3, 0x30BF, 0x30EB]"

fun TEMPLATE_QUESTS :: "CategoryKey \<Rightarrow> jsstring list" where
  "TEMPLATE_QUESTS Undou =
    [
     [0x0031, 0x0030, 0x5206, 0x30B9, 0x30C8, 0x30EC, 0x30C3, 0x30C1, 0xFF08, 0x9996,
      0x30FB, 0x80A9, 0x30FB, 0x8170, 0xFF09],
     [0x8EFD, 0x3044, 0x30B8, 0x30E7, 0x30B0, 0x0031, 0x0030, 0x5206],
     [0x8155, 0x7ACB, 0x3066, 0x30FB, 0x8179, 0x7B4B, 0x30FB, 0x80CC, 0x7B4B, 0x0020,
      0x5404, 0x0031, 0x0030, 0x56DE]
    ]"
| "TEMPLATE_QUESTS Gakushuu =
    [
     [0x82F1, 0x5358, 0x8A9E, 0x0031, 0x0035, 0x5206],
     [0x8AAD, 0x66F8, 0x0032, 0x0030, 0x5206],
     [0x8B1B, 0x7FA9, 0x30CE, 0x30FC, 0x30C8, 0x306E, 0x5FA9, 0x7FD2, 0x0031, 0x0030,
      0x5206]
    ]"
| "TEMPLATE_QUESTS Shuukan =
    [
     [0x30C7, 0x30B9, 0x30AF, 0x7247, 0x4ED8, 0x3051, 0x0035, 0x5206],
     [0x6D17, 0x6FEF, 0x7269, 0x305F, 0x305F, 0x3080],
     [0x7FCC, 0x65E5, 0x306E, 0x0054, 0x006F, 0x0044, 0x006F, 0x3092, 0x0033, 0x3064,
      0x66F8, 0x304F]
    ]"
| "TEMPLATE_QUESTS Shinkou =
    [
     [0x65E5, 0x8A18, 0x0033, 0x884C, 0xFF08, 0x611F, 0x8B1D, 0xFF09],
     [0x9759, 0x304B, 0x306A, 0x7948, 0x308A, 0x30FB, 0x7791, 0x60F3, 0x0035, 0x5206],
     [0x5584, 0x3044, 0x884C, 0x3044, 0x3092, 0x0031, 0x3064]
    ]"
| "TEMPLATE_QUESTS Ningenryoku =
    [
     [0x8AB0, 0x304B, 0x306B, 0x6328, 0x62F6, 0xFF0B, 0x4E00, 0x8A00],
     [0x5BB6, 0x65CF, 0x002F, 0x53CB, 0x4EBA, 0x306B, 0x004C, 0x0049, 0x004E, 0x0045,
      0x3067, 0x8FD1, 0x6CC1],
     [0x3042, 0x308A, 0x304C, 0x3068, 0x3046, 0x3092, 0x0033, 0x56DE, 0x4F1D, 0x3048,
      0x308B]
    ]"
| "TEMPLATE_QUESTS Kinsen =
    [
     [0x5BB6, 0x8A08, 0x7C3F, 0x5165, 0x529B, 0x0033, 0x5206],
     [0x4E0D, 0x8981, 0x652F, 0x51FA, 0x30C1, 0x30A7, 0x30C3, 0x30AF],
     [0x6295, 0x8CC7, 0x002F, 0x8CAF, 0x84C4, 0x3092, 0x0035, 0x0030, 0x0030, 0x5186,
      0x691C, 0x8A0E]
    ]"
| "TEMPLATE_QUESTS Suimin =
    [
     [0x5C31, 0x5BDD, 0x524D, 0x306E, 0x30D6, 0x30EB, 0x30FC, 0x30E9, 0x30A4, 0x30C8,
      0x0031, 0x0030, 0x5206, 0x30AB, 0x30C3, 0x30C8],
     [0x5C31, 0x5BDD, 0x002F, 0x8D77, 0x5E8A, 0x6642, 0x523B, 0x3092, 0x8A18, 0x9332],
     [0x6C34, 0x5206, 0x3092, 0x4E00, 0x676F, 0x98F2, 0x3080]
    ]"
| "TEMPLATE_QUESTS Shokuji =
    [
     [0x6C34, 0x3092, 0x0031, 0x65E5, 0x0031, 0x002E, 0x0035, 0x004C, 0x76EE, 0x6A19],
     [0x30B5, 0x30E9, 0x30C0, 0x002F, 0x30BF, 0x30F3, 0x30D1, 0x30AF, 0x8CEA, 0x3092,
      0x4E00, 0x54C1],
     [0x9593, 0x98DF, 0x3092, 0x4E00, 0x5EA6, 0x30B9, 0x30AD, 0x30C3, 0x30D7]
    ]"
| "TEMPLATE_QUESTS Mentaru =
    [
     [0x6DF1, 0x547C, 0x5438, 0x0033, 0x56DE],
     [0x0033, 0x5206, 0x7791, 0x60F3],
     [0x6563, 0x6B69, 0x0035, 0x5206]
    ]"

definition STORAGE_KEY :: jsstring where
  "STORAGE_KEY = ascii ''growth-planner-v1''"

section \<open>Plan generation\<close>

text \<open>
  \<open>uid\<close> is \<^verbatim>\<open>Math.random().toString(36).slice(2, 10)\<close>. The random source is an
  input of the model: \<open>rand36 n\<close> is the base-36 rendering of the \<open>n\<close>-th number that
  \<^verbatim>\<open>Math.random()\<close> returns during the call, and the generator counts its draws.
\<close>

definition slice :: "nat \<Rightarrow> nat \<Rightarrow> 'a list \<Rightarrow> 'a list" where
  "slice b e xs = take (e - b) (drop b xs)"

definition uid :: "(nat \<Rightarrow> jsstring) \<Rightarrow> nat \<Rightarrow> jsstring" where
  "uid rand36 n = slice 2 10 (rand36 n)"

definition pick_titles :: "nat \<Rightarrow> nat \<Rightarrow> CategoryKey \<Rightarrow> jsstring list" where
  "pick_titles i idx cat =
     (let candidates = TEMPLATE_QUESTS cat;
          base = (i + idx) mod length candidates
      in [candidates ! base, candidates ! ((base + 1) mod length candidates)])"

text \<open>The inner \<^verbatim>\<open>titles.forEach\<close>: one quest pushed, one id drawn, per title.\<close>

fun push_titles ::
  "(nat \<Rightarrow> jsstring) \<Rightarrow> jsstring list \<Rightarrow> nat \<Rightarrow> Quest list \<Rightarrow> Quest list \<times> nat" where
  "push_titles rand36 [] n qs = (qs, n)"
| "push_titles rand36 (t # ts) n qs =
     push_titles rand36 ts (Suc n)
       (qs @ [\<lparr>id' = uid rand36 n, title = t, done = False, enabled = True\<rparr>])"

text \<open>The outer \<^verbatim>\<open>selected.forEach((cat, idx) => ...)\<close> of day \<open>i\<close>.\<close>

fun forEach_selected ::
  "(nat \<Rightarrow> jsstring) \<Rightarrow> nat \<Rightarrow> nat \<Rightarrow> CategoryKey list \<Rightarrow> nat \<Rightarrow> Quest list
     \<Rightarrow> Quest list \<times> nat" where
  "forEach_selected rand36 i idx [] n qs = (qs, n)"
| "forEach_selected rand36 i idx (cat # cats) n qs =
     (case push_titles rand36 (pick_titles i idx cat) n qs of
        (qs', n') \<Rightarrow> forEach_selected rand36 i (Suc idx) cats n' qs')"

text \<open>The loop \<^verbatim>\<open>for (let i = 1; i <= 7; i++)\<close>.\<close>

function days_loop ::
  "(nat \<Rightarrow> jsstring) \<Rightarrow> CategoryKey list \<Rightarrow> nat \<Rightarrow> nat \<Rightarrow> Quest DayPlan list \<Rightarrow> Quest DayPlan list" where
  "days_loop rand36 selected i n days =
     (if i \<le> 7 then
        (case forEach_selected rand36 i 0 selected n [] of
           (qs, n') \<Rightarrow>
             (let trimmed = slice 0 5 qs
              in days_loop rand36 selected (i + 1) n' (days @ [\<lparr>day = i, quests = trimmed\<rparr>])))
      else days)"
  by pat_completeness auto
termination
  by (relation "measure (\<lambda>(rand36, selected, i, n, days). 8 - i)") auto

declare days_loop.simps [simp del]

definition buildWeekPlan :: "(nat \<Rightarrow> jsstring) \<Rightarrow> CategoryKey list \<Rightarrow> Quest DayPlan list" where
  "buildWeekPlan rand36 selected = days_loop rand36 selected 1 0 []"

section \<open>Host: window, localStorage, JSON\<close>

text \<open>
  The browser is an input of the model. \<open>window h = None\<close> stands for
  \<^verbatim>\<open>typeof window === "undefined"\<close>. A store that denies access raises on every call;
  \<open>setItem\<close> also raises when the value is longer than the store's capacity.
  \<^verbatim>\<open>JSON.stringify\<close> and \<^verbatim>\<open>JSON.parse\<close> are the host's functions: the parser
  either raises \<open>SyntaxError\<close> or returns the parsed value, \<open>None\<close> for \<^verbatim>\<open>null\<close>,
  typed as the source's cast \<^verbatim>\<open>as AppState\<close> declares it.
\<close>

datatype error = TypeError | SyntaxError | SecurityError | QuotaExceededError

record localStorage =
  denied :: bool
  capacity :: nat
  items :: "jsstring \<rightharpoonup> jsstring"

record 's host =
  window :: "localStorage option"
  JSON_stringify :: "'s \<Rightarrow> jsstring"
  JSON_parse :: "jsstring \<Rightarrow> error + 's option"

definition getItem :: "localStorage \<Rightarrow> jsstring \<Rightarrow> error + jsstring option" where
  "getItem ls k = (if denied ls then Inl SecurityError else Inr (items ls k))"

definition setItem :: "localStorage \<Rightarrow> jsstring \<Rightarrow> jsstring \<Rightarrow> error + localStorage" where
  "setItem ls k v =
     (if denied ls then Inl SecurityError
      else if capacity ls < length v then Inl QuotaExceededError
      else Inr (ls\<lparr>items := (items ls)(k \<mapsto> v)\<rparr>))"

definition removeItem :: "localStorage \<Rightarrow> jsstring \<Rightarrow> error + localStorage" where
  "removeItem ls k =
     (if denied ls then Inl SecurityError
      else Inr (ls\<lparr>items := (items ls)(k := None)\<rparr>))"

section \<open>Persistence\<close>

text \<open>The body of the \<^verbatim>\<open>try\<close> block of \<open>loadState\<close>; an empty string is falsy.\<close>

definition loadState_try :: "'s host \<Rightarrow> localStorage \<Rightarrow> error + 's option" where
  "loadState_try h ls =
     (case getItem ls STORAGE_KEY of
        Inl e \<Rightarrow> Inl e
      | Inr raw \<Rightarrow>
          (case raw of
             None \<Rightarrow> Inr None
           | Some s \<Rightarrow> if s \<noteq> [] then JSON_parse h s else Inr None))"

definition loadState :: "'s host \<Rightarrow> error + 's option" where
  "loadState h =
     (case window h of
        None \<Rightarrow> Inr None
      | Some ls \<Rightarrow>
          (case loadState_try h ls of
             Inl e \<Rightarrow> Inr None
           | Inr v \<Rightarrow> Inr v))"

definition saveState :: "'s host \<Rightarrow> 's \<Rightarrow> error + 's host" where
  "saveState h st =
     (case window h of
        None \<Rightarrow> Inr h
      | Some ls \<Rightarrow>
          (case setItem ls STORAGE_KEY (JSON_stringify h st) of
             Inl e \<Rightarrow> Inl e
           | Inr ls' \<Rightarrow> Inr (h\<lparr>window := Some ls'\<rparr>)))"

section \<open>The page component\<close>

text \<open>
  The component's React state: the loaded or generated \<open>state\<close> and the pending
  category selection, to which \<^verbatim>\<open>src/app/page.tsx\<close> adds a stored \<open>score\<close>.
  (Its tab and menu flags, which none of the handlers below reads, are left out.)
  A handler runs on the component state and the host and either completes or lets an
  exception escape; both leave a component state and a host behind, since a state
  update queued before the exception is still applied.
\<close>

record 'q Page0 =
  state :: "'q AppState option"
  selected :: "CategoryKey list"

record Page = "Quest Page0" +
  score :: int

datatype 'w outcome = Completed 'w | Escaped error 'w

definition initial_Page :: Page where
  "initial_Page = \<lparr>state = None, selected = [], score = 0\<rparr>"

text \<open>
  \<^verbatim>\<open>day.quests.find((x) => x.id === qid)\<close> returns the first quest with the id, and
  the handler then writes to that object inside the copied state: \<open>update_found\<close>
  rewrites the first element that satisfies the predicate.
\<close>

fun update_found :: "('a \<Rightarrow> bool) \<Rightarrow> ('a \<Rightarrow> 'a) \<Rightarrow> 'a list \<Rightarrow> 'a list" where
  "update_found P f [] = []"
| "update_found P f (x # xs) = (if P x then f x # xs else x # update_found P f xs)"

text \<open>
  \<^verbatim>\<open>copy.plans[dayIdx]\<close> is \<^verbatim>\<open>undefined\<close> outside the array, and reading
  \<^verbatim>\<open>.quests\<close> of it raises \<open>TypeError\<close>.
\<close>

definition plan_at :: "'q AppState \<Rightarrow> int \<Rightarrow> 'q DayPlan option" where
  "plan_at copy dayIdx =
     (if 0 \<le> dayIdx \<and> dayIdx < int (length (plans copy))
      then Some (plans copy ! nat dayIdx) else None)"

definition write_quest :: "'q AppState \<Rightarrow> int \<Rightarrow> ('q \<Rightarrow> bool) \<Rightarrow> 'q \<Rightarrow> 'q AppState" where
  "write_quest copy dayIdx P q' =
     copy\<lparr>plans := (plans copy)
       [nat dayIdx := (plans copy ! nat dayIdx)
          \<lparr>quests := update_found P (\<lambda>_. q') (quests (plans copy ! nat dayIdx))\<rparr>]\<rparr>"

definition toggleDone :: "int \<Rightarrow> jsstring \<Rightarrow> Page \<times> Quest AppState host
    \<Rightarrow> (Page \<times> Quest AppState host) outcome" where
  "toggleDone dayIdx qid w =
     (case w of (p, h) \<Rightarrow>
        (case state p of
           None \<Rightarrow> Completed w
         | Some copy \<Rightarrow>
             (case plan_at copy dayIdx of
                None \<Rightarrow> Escaped TypeError w
              | Some d \<Rightarrow>
                  (case find (\<lambda>x. id' x = qid) (quests d) of
                     None \<Rightarrow> Completed w
                   | Some q \<Rightarrow>
                       (let q' = q\<lparr>done := \<not> done q\<rparr>;
                            copy' = write_quest copy dayIdx (\<lambda>x. id' x = qid) q';
                            score' = (if done q' then fst (addScore (score p) 1)
                                      else max 0 (score p - 1));
                            p' = p\<lparr>state := Some copy', score := score'\<rparr>
                        in (case saveState h copy' of
                              Inl e \<Rightarrow> Escaped e (p', h)
                            | Inr h' \<Rightarrow> Completed (p', h')))))))"

text \<open>
  \<open>handleQuestCompletion\<close> calls \<open>toggleDone\<close> and then sets the score to the
  rendered score plus ten; that last update replaces the one \<open>toggleDone\<close> queued.
  No view is given this handler.
\<close>

definition handleQuestCompletion :: "int \<Rightarrow> jsstring \<Rightarrow> Page \<times> Quest AppState host
    \<Rightarrow> (Page \<times> Quest AppState host) outcome" where
  "handleQuestCompletion dayIdx qid w =
     (case toggleDone dayIdx qid w of
        Escaped e w' \<Rightarrow> Escaped e w'
      | Completed w' \<Rightarrow>
          (case w' of (p', h') \<Rightarrow>
             Completed (p'\<lparr>score := fst (addScore (score (fst w)) 10)\<rparr>, h')))"

definition toggleEnabled :: "int \<Rightarrow> jsstring \<Rightarrow> Page \<times> Quest AppState host
    \<Rightarrow> (Page \<times> Quest AppState host) outcome" where
  "toggleEnabled dayIdx qid w =
     (case w of (p, h) \<Rightarrow>
        (case state p of
           None \<Rightarrow> Completed w
         | Some copy \<Rightarrow>
             (case plan_at copy dayIdx of
                None \<Rightarrow> Escaped TypeError w
              | Some d \<Rightarrow>
                  (case find (\<lambda>x. id' x = qid) (quests d) of
                     None \<Rightarrow> Completed w
                   | Some q \<Rightarrow>
                       (let q' = q\<lparr>enabled := \<not> enabled q\<rparr>;
                            copy' = write_quest copy dayIdx (\<lambda>x. id' x = qid) q';
                            p' = p\<lparr>state := Some copy'\<rparr>
                        in (case saveState h copy' of
                              Inl e \<Rightarrow> Escaped e (p', h)
                            | Inr h' \<Rightarrow> Completed (p', h')))))))"

definition resetAll :: "('q, 'a) Page0_scheme \<times> 'q AppState host
    \<Rightarrow> (('q, 'a) Page0_scheme \<times> 'q AppState host) outcome" where
  "resetAll w =
     (case w of (p, h) \<Rightarrow>
        (let p' = p\<lparr>state := None, selected := []\<rparr>
         in (case window h of
               None \<Rightarrow> Completed (p', h)
             | Some ls \<Rightarrow>
                 (case removeItem ls STORAGE_KEY of
                    Inl e \<Rightarrow> Escaped e (p', h)
                  | Inr ls' \<Rightarrow> Completed (p', h\<lparr>window := Some ls'\<rparr>)))))"

text \<open>
  \<open>generate\<close> exists while the component has no plan. \<open>now\<close> is
  \<^verbatim>\<open>new Date().toISOString()\<close>.
\<close>

definition hasPlan :: "('q, 'a) Page0_scheme \<Rightarrow> bool" where
  "hasPlan p = (case state p of None \<Rightarrow> False | Some s \<Rightarrow> plans s \<noteq> [])"

definition generate :: "(nat \<Rightarrow> jsstring) \<Rightarrow> jsstring \<Rightarrow> Page \<times> Quest AppState host
    \<Rightarrow> (Page \<times> Quest AppState host) outcome" where
  "generate rand36 now w =
     (case w of (p, h) \<Rightarrow>
        (let base = (if selected p \<noteq> [] then selected p else [Undou, Gakushuu]);
             next = \<lparr>selectedCategories = base, plans = buildWeekPlan rand36 base,
                     createdAt = Some now, theme = None\<rparr>;
             p' = p\<lparr>state := Some next\<rparr>
         in (case saveState h next of
               Inl e \<Rightarrow> Escaped e (p', h)
             | Inr h' \<Rightarrow> Completed (p', h'))))"

text \<open>The effect that runs once after the first render.\<close>

definition mount :: "('q, 'a) Page0_scheme \<times> 'q AppState host
    \<Rightarrow> (('q, 'a) Page0_scheme \<times> 'q AppState host) outcome" where
  "mount w =
     (case w of (p, h) \<Rightarrow>
        (case loadState h of
           Inl e \<Rightarrow> Escaped e w
         | Inr None \<Rightarrow> Completed w
         | Inr (Some s) \<Rightarrow>
             Completed
               (if plans s = [] \<and> selectedCategories s \<noteq> []
                then p\<lparr>state := Some s, selected := selectedCategories s\<rparr>
                else p\<lparr>state := Some s\<rparr>, h)))"

text \<open>
  The component state and host that a handler leaves behind, whether it completed or
  not, and the quest that a handler's lookup finds in a state.
\<close>

fun after :: "'w outcome \<Rightarrow> 'w" where
  "after (Completed w) = w"
| "after (Escaped e w) = w"

definition lookup :: "'q AppState option \<Rightarrow> int \<Rightarrow> ('q \<Rightarrow> bool) \<Rightarrow> 'q option" where
  "lookup s dayIdx P =
     (case s of
        None \<Rightarrow> None
      | Some a \<Rightarrow> (case plan_at a dayIdx of None \<Rightarrow> None | Some d \<Rightarrow> find P (quests d)))"

section \<open>The mock assistant\<close>

text \<open>
  The regular expressions of the source have no flags: they match code units, \<open>^\<close> is
  the start of the text and \<open>$\<close> its end. Each alternative is a literal, so a test is
  a disjunction of prefix and substring checks.
\<close>

definition kw_help :: jsstring where
  "kw_help =
     [0x0068, 0x0065, 0x006C, 0x0070]"

definition kw_herupu :: jsstring where
  "kw_herupu =
     [0x30D8, 0x30EB, 0x30D7]"

definition kw_komatta :: jsstring where
  "kw_komatta =
     [0x56F0, 0x3063, 0x305F]"

definition kw_dou_tsuka :: jsstring where
  "kw_dou_tsuka =
     [0x3069, 0x3046, 0x4F7F]"

definition kw_konnichiwa :: jsstring where
  "kw_konnichiwa =
     [0x3053, 0x3093, 0x306B, 0x3061, 0x306F]"

definition kw_hajimemashite :: jsstring where
  "kw_hajimemashite =
     [0x521D, 0x3081, 0x307E, 0x3057, 0x3066]"

definition kw_konchiwa :: jsstring where
  "kw_konchiwa =
     [0x3053, 0x3093, 0x3061, 0x306F]"

definition kw_tenki :: jsstring where
  "kw_tenki =
     [0x5929, 0x6C17]"

definition kw_weather :: jsstring where
  "kw_weather =
     [0x0077, 0x0065, 0x0061, 0x0074, 0x0068, 0x0065, 0x0072]"

definition kw_eitango :: jsstring where
  "kw_eitango =
     [0x82F1, 0x5358, 0x8A9E]"

definition kw_tango :: jsstring where
  "kw_tango =
     [0x5358, 0x8A9E]"

definition kw_eigo :: jsstring where
  "kw_eigo =
     [0x82F1, 0x8A9E]"

definition kw_undou :: jsstring where
  "kw_undou =
     [0x904B, 0x52D5]"

definition kw_kintore :: jsstring where
  "kw_kintore =
     [0x7B4B, 0x30C8, 0x30EC]"

definition kw_sutoretchi :: jsstring where
  "kw_sutoretchi =
     [0x30B9, 0x30C8, 0x30EC, 0x30C3, 0x30C1]"

definition kw_hashi :: jsstring where
  "kw_hashi =
     [0x8D70]"

definition usage_message :: jsstring where
  "usage_message =
     [0x4F7F, 0x3044, 0x65B9, 0x003A, 0x0020, 0x76EE, 0x6A19, 0x3084, 0x60A9, 0x307F,
      0x3092, 0x66F8, 0x3044, 0x3066, 0x3002, 0x5C0F, 0x3055, 0x304F, 0x5206, 0x89E3,
      0x3057, 0x305F, 0x30BF, 0x30B9, 0x30AF, 0x6848, 0x3092, 0x8FD4, 0x3059, 0x3088,
      0x3002, 0x4F8B, 0x003A, 0x0020, 0x2018, 0x82F1, 0x5358, 0x8A9E, 0x3092, 0x899A,
      0x3048, 0x305F, 0x3044, 0x2019]"

definition greeting_message :: jsstring where
  "greeting_message =
     [0x3053, 0x3093, 0x306B, 0x3061, 0x306F, 0x3002, 0x4ECA, 0x65E5, 0x306F, 0x4F55,
      0x3092, 0x9032, 0x3081, 0x308B, 0xFF1F, 0x0037, 0x5206, 0x3067, 0x51FA, 0x6765,
      0x308B, 0x5C0F, 0x30BF, 0x30B9, 0x30AF, 0x304B, 0x3089, 0x3044, 0x3053, 0x3046]"

definition weather_message :: jsstring where
  "weather_message =
     [0x5929, 0x6C17, 0x306F, 0x3053, 0x306E, 0x30E2, 0x30C3, 0x30AF, 0x3067, 0x306F,
      0x898B, 0x3089, 0x308C, 0x306A, 0x3044, 0x3051, 0x3069, 0x3001, 0x4EE3, 0x308F,
      0x308A, 0x306B, 0x0020, 0x2018, 0x5C4B, 0x5185, 0x3067, 0x51FA, 0x6765, 0x308B,
      0x3053, 0x3068, 0x2019, 0x0020, 0x3092, 0x0033, 0x3064, 0x63D0, 0x6848, 0x003A,
      0x0020, 0x0031, 0x0029, 0x0020, 0x30B9, 0x30C8, 0x30EC, 0x30C3, 0x30C1, 0x0037,
      0x5206, 0x0020, 0x0032, 0x0029, 0x0020, 0x8AAD, 0x66F8, 0x0031, 0x0030, 0x5206,
      0x0020, 0x0033, 0x0029, 0x0020, 0x673A, 0x306E, 0x7247, 0x4ED8, 0x3051, 0x0035,
      0x5206]"

definition vocabulary_message :: jsstring where
  "vocabulary_message =
     [0x63D0, 0x6848, 0x003A, 0x0020, 0x0031, 0x0029, 0x0020, 0x0031, 0x5206, 0x3067,
      0x5FA9, 0x7FD2, 0x30C6, 0x30FC, 0x30DE, 0x6C7A, 0x3081, 0x0020, 0x0032, 0x0029,
      0x0020, 0x0037, 0x5206, 0x3067, 0x0031, 0x0030, 0x8A9E, 0x6697, 0x8A18, 0x0020,
      0x0033, 0x0029, 0x0020, 0x0032, 0x5206, 0x3067, 0x81EA, 0x5DF1, 0x30C6, 0x30B9,
      0x30C8, 0x0020, 0x2192, 0x0020, 0x5408, 0x8A08, 0x0031, 0x0030, 0x5206]"

definition exercise_message :: jsstring where
  "exercise_message =
     [0x63D0, 0x6848, 0x003A, 0x0020, 0x0031, 0x0029, 0x0020, 0x0031, 0x5206, 0x6E96,
      0x5099, 0x0020, 0x0032, 0x0029, 0x0020, 0x0037, 0x5206, 0x30B5, 0x30FC, 0x30AD,
      0x30C3, 0x30C8, 0x0028, 0x8155, 0x7ACB, 0x3066, 0x002F, 0x30B9, 0x30AF, 0x30EF,
      0x30C3, 0x30C8, 0x002F, 0x30D7, 0x30E9, 0x30F3, 0x30AF, 0x0029, 0x0020, 0x0033,
      0x0029, 0x0020, 0x0032, 0x5206, 0x6574, 0x7406]"

definition question_prefix :: jsstring where
  "question_prefix =
     [0x8981, 0x3059, 0x308B, 0x306B, 0x300E]"

definition question_suffix :: jsstring where
  "question_suffix =
     [0x300F, 0x3063, 0x3066, 0x3053, 0x3068, 0x304B, 0x306A, 0x3002, 0x307E, 0x305A,
      0x306F, 0x5C0F, 0x3055, 0x304F, 0x8A66, 0x3059, 0x3068, 0x826F, 0x3044, 0x3088]"

definition fallback_prefix :: jsstring where
  "fallback_prefix =
     [0x306A, 0x308B, 0x307B, 0x3069, 0x3002, 0x3044, 0x307E, 0x304B, 0x3089, 0x51FA,
      0x6765, 0x308B, 0x5C0F, 0x3055, 0x306A, 0x4E00, 0x6B69, 0x003A, 0x0020]"

definition kw_shinchoku :: jsstring where
  "kw_shinchoku =
     [0x9032, 0x6357]"

definition kw_status :: jsstring where
  "kw_status =
     [0x0073, 0x0074, 0x0061, 0x0074, 0x0075, 0x0073]"

definition kw_suteetasu :: jsstring where
  "kw_suteetasu =
     [0x30B9, 0x30C6, 0x30FC, 0x30BF, 0x30B9]"

definition kw_deeta :: jsstring where
  "kw_deeta =
     [0x30C7, 0x30FC, 0x30BF]"

definition kw_bunseki :: jsstring where
  "kw_bunseki =
     [0x5206, 0x6790]"

definition progress_message :: jsstring where
  "progress_message =
     [0x73FE, 0x5728, 0x306E, 0x9032, 0x6357, 0x3092, 0x8981, 0x7D04, 0x3057, 0x307E,
      0x3059, 0x3002, 0x307E, 0x305A, 0x306F, 0x30BF, 0x30B9, 0x30AF, 0x4E00, 0x89A7,
      0x3092, 0x5171, 0x6709, 0x3057, 0x3066, 0x304F, 0x3060, 0x3055, 0x3044, 0x3002]"

definition data_message :: jsstring where
  "data_message =
     [0x0043, 0x0053, 0x0056, 0x304B, 0x30B9, 0x30D7, 0x30EC, 0x30C3, 0x30C9, 0x30B7,
      0x30FC, 0x30C8, 0x3092, 0x30A2, 0x30C3, 0x30D7, 0x30ED, 0x30FC, 0x30C9, 0x3044,
      0x305F, 0x3060, 0x3051, 0x308C, 0x3070, 0x3001, 0x6982, 0x8981, 0x7D71, 0x8A08,
      0x2192, 0x53EF, 0x8996, 0x5316, 0x2192, 0x6240, 0x898B, 0x307E, 0x3067, 0x51FA,
      0x3057, 0x307E, 0x3059, 0x3002]"

definition generic_message :: jsstring where
  "generic_message =
     [0x627F, 0x77E5, 0x3057, 0x307E, 0x3057, 0x305F, 0x3002, 0x3082, 0x3046, 0x5C11,
      0x3057, 0x5177, 0x4F53, 0x7684, 0x306B, 0x72B6, 0x6CC1, 0x3092, 0x6559, 0x3048,
      0x3066, 0x304F, 0x3060, 0x3055, 0x3044, 0x3002]"

definition tips :: "jsstring list" where
  "tips =
    [
     [0x30BF, 0x30A4, 0x30DE, 0x30FC, 0x3092, 0x0031, 0x0030, 0x5206, 0x30BB, 0x30C3,
      0x30C8],
     [0x3084, 0x308B, 0x3053, 0x3068, 0x3092, 0x0033, 0x3064, 0x306B, 0x7D5E, 0x308B],
     [0x7D42, 0x308F, 0x3063, 0x305F, 0x3089, 0x4E00, 0x8A00, 0x65E5, 0x8A18],
     [0x6C34, 0x3092, 0x4E00, 0x676F, 0x98F2, 0x3080],
     [0x673A, 0x306E, 0x4E0A, 0x3092, 0x0031, 0x0035, 0x79D2, 0x3060, 0x3051, 0x6574,
      0x3048, 0x308B]
    ]"

fun startsWith :: "'a list \<Rightarrow> 'a list \<Rightarrow> bool" where
  "startsWith [] s = True"
| "startsWith (a # k) [] = False"
| "startsWith (a # k) (b # s) = (a = b \<and> startsWith k s)"

fun contains :: "'a list \<Rightarrow> 'a list \<Rightarrow> bool" where
  "contains k [] = (k = [])"
| "contains k (c # s) = (startsWith k (c # s) \<or> contains k s)"

text \<open>The white space and line terminators that \<^verbatim>\<open>String.prototype.trim\<close> strips.\<close>

definition is_space :: "nat \<Rightarrow> bool" where
  "is_space c =
     (c \<in> {0x0009, 0x000A, 0x000B, 0x000C, 0x000D, 0x0020, 0x00A0, 0x1680, 0x2028, 0x2029,
            0x202F, 0x205F, 0x3000, 0xFEFF}
      \<or> (0x2000 \<le> c \<and> c \<le> 0x200A))"

definition trim :: "jsstring \<Rightarrow> jsstring" where
  "trim s = rev (dropWhile is_space (rev (dropWhile is_space s)))"

fun join :: "'a list \<Rightarrow> 'a list list \<Rightarrow> 'a list" where
  "join sep [] = []"
| "join sep [x] = x"
| "join sep (x # y # ys) = x @ sep @ join sep (y # ys)"

text \<open>
  \<open>shuffle\<close> copies the array and runs \<^verbatim>\<open>for (let i = a.length - 1; i > 0; i--)\<close>,
  drawing \<^verbatim>\<open>Math.floor(Math.random() * (i + 1))\<close> each round; \<open>random k\<close> is the
  \<open>k\<close>-th number drawn.
\<close>

fun shuffle_loop :: "(nat \<Rightarrow> real) \<Rightarrow> nat \<Rightarrow> nat \<Rightarrow> 'a list \<Rightarrow> 'a list" where
  "shuffle_loop random k 0 a = a"
| "shuffle_loop random k (Suc i') a =
     (let i = Suc i';
          j = nat \<lfloor>random k * real (i + 1)\<rfloor>
      in shuffle_loop random (Suc k) i' (a[i := a ! j, j := a ! i]))"

definition shuffle :: "(nat \<Rightarrow> real) \<Rightarrow> 'a list \<Rightarrow> 'a list" where
  "shuffle random arr = shuffle_loop random 0 (length arr - 1) arr"

text \<open>
  \<open>toLowerCase\<close> is the host's \<^verbatim>\<open>String.prototype.toLowerCase\<close>, an input of the
  model, as is the random source.
\<close>

definition mockAssistant ::
  "(jsstring \<Rightarrow> jsstring) \<Rightarrow> (nat \<Rightarrow> real) \<Rightarrow> jsstring \<Rightarrow> ChatMsg list \<Rightarrow> jsstring" where
  "mockAssistant toLowerCase random input history =
     (let text = trim input;
          lower = toLowerCase text
      in if startsWith kw_help text \<or> startsWith kw_herupu text
            \<or> contains kw_komatta text \<or> contains kw_dou_tsuka text
         then usage_message
         else if contains kw_konnichiwa text \<or> contains kw_hajimemashite text
                 \<or> contains kw_konchiwa text
         then greeting_message
         else if contains kw_tenki lower \<or> contains kw_weather lower
         then weather_message
         else if contains kw_eitango text \<or> contains kw_tango text \<or> contains kw_eigo text
         then vocabulary_message
         else if contains kw_undou text \<or> contains kw_kintore text
                 \<or> contains kw_sutoretchi text \<or> contains kw_hashi text
         then exercise_message
         else if text \<noteq> [] \<and> last text \<in> {0x003F, 0xFF1F}
         then (let lastUser = (case find (\<lambda>m. role m = User) (rev history) of
                                 Some m \<Rightarrow> content m | None \<Rightarrow> [])
               in question_prefix @ slice 0 40 lastUser @ question_suffix)
         else (let len = length text;
                   n = max 3 (min 5 (len div 12));
                   pick = join (ascii '' / '') (slice 0 n (shuffle random tips))
               in fallback_prefix @ pick))"

section \<open>The redesigned page\<close>

text \<open>
  The latest iteration of the page keeps no score: its points are computed from the
  plans. Its quests carry optional display attributes, its two toggles guard the
  invariant between \<open>enabled\<close> and \<open>done\<close>, and its assistant is a placeholder.
\<close>

record Quest_v3 = Quest +
  category :: "jsstring option"
  points :: "int option"
  progress :: "int option"
  locked :: "bool option"
  "note" :: "jsstring option"

definition POINTS_PER_QUEST :: int where
  "POINTS_PER_QUEST = 10"

text \<open>
  Here the generator also draws the optional \<open>progress\<close>, so the random source is
  numeric: \<open>random n\<close> is the \<open>n\<close>-th number drawn and \<open>toString36\<close> the host's
  \<^verbatim>\<open>Number.prototype.toString(36)\<close>. A quest takes two draws, or three when the
  second is below 0.3.
\<close>

fun push_titles_v3 ::
  "(real \<Rightarrow> jsstring) \<Rightarrow> (nat \<Rightarrow> real) \<Rightarrow> CategoryKey \<Rightarrow> nat \<Rightarrow> jsstring list \<Rightarrow> nat
     \<Rightarrow> Quest_v3 list \<Rightarrow> Quest_v3 list \<times> nat" where
  "push_titles_v3 toString36 random cat j [] n qs = (qs, n)"
| "push_titles_v3 toString36 random cat j (t # ts) n qs =
     (let q_id = uid (\<lambda>m. toString36 (random m)) n;
          drawn = (random (n + 1) < 3 / 10);
          q = \<lparr>id' = q_id, title = t, done = False, enabled = True,
               category = Some (key_string cat),
               points = Some (POINTS_PER_QUEST + (if j = 1 then 5 else 0)),
               progress = (if drawn then Some (\<lfloor>random (n + 2) * 70\<rfloor> + 10) else None),
               locked = Some False, note = None\<rparr>
      in push_titles_v3 toString36 random cat (Suc j) ts (if drawn then n + 3 else n + 2)
           (qs @ [q]))"

fun forEach_selected_v3 ::
  "(real \<Rightarrow> jsstring) \<Rightarrow> (nat \<Rightarrow> real) \<Rightarrow> nat \<Rightarrow> nat \<Rightarrow> CategoryKey list \<Rightarrow> nat
     \<Rightarrow> Quest_v3 list \<Rightarrow> Quest_v3 list \<times> nat" where
  "forEach_selected_v3 toString36 random i idx [] n qs = (qs, n)"
| "forEach_selected_v3 toString36 random i idx (cat # cats) n qs =
     (case push_titles_v3 toString36 random cat 0 (pick_titles i idx cat) n qs of
        (qs', n') \<Rightarrow> forEach_selected_v3 toString36 random i (Suc idx) cats n' qs')"

function days_loop_v3 ::
  "(real \<Rightarrow> jsstring) \<Rightarrow> (nat \<Rightarrow> real) \<Rightarrow> CategoryKey list \<Rightarrow> nat \<Rightarrow> nat
     \<Rightarrow> Quest_v3 DayPlan list \<Rightarrow> Quest_v3 DayPlan list" where
  "days_loop_v3 toString36 random cats i n days =
     (if i \<le> 7 then
        (case forEach_selected_v3 toString36 random i 0 cats n [] of
           (qs, n') \<Rightarrow>
             (let trimmed = slice 0 5 qs
              in days_loop_v3 toString36 random cats (i + 1) n'
                   (days @ [\<lparr>day = i, quests = trimmed\<rparr>])))
      else days)"
  by pat_completeness auto
termination
  by (relation "measure (\<lambda>(toString36, random, cats, i, n, days). 8 - i)") auto

declare days_loop_v3.simps [simp del]

definition buildWeekPlan_v3 ::
  "(real \<Rightarrow> jsstring) \<Rightarrow> (nat \<Rightarrow> real) \<Rightarrow> CategoryKey list \<Rightarrow> Quest_v3 DayPlan list" where
  "buildWeekPlan_v3 toString36 random cats = days_loop_v3 toString36 random cats 1 0 []"

definition totalPoints :: "('a Quest_scheme) Page0 \<Rightarrow> int" where
  "totalPoints p =
     (case state p of
        None \<Rightarrow> 0
      | Some s \<Rightarrow>
          (let flat = concat (map quests (plans s));
               doneCnt = length (filter (\<lambda>q. enabled q \<and> done q) flat)
           in int doneCnt * POINTS_PER_QUEST))"

definition toggleDone_v3 :: "int \<Rightarrow> jsstring \<Rightarrow> Quest_v3 Page0 \<times> Quest_v3 AppState host
    \<Rightarrow> (Quest_v3 Page0 \<times> Quest_v3 AppState host) outcome" where
  "toggleDone_v3 dayIdx qid w =
     (case w of (p, h) \<Rightarrow>
        (case state p of
           None \<Rightarrow> Completed w
         | Some copy \<Rightarrow>
             (case plan_at copy dayIdx of
                None \<Rightarrow> Escaped TypeError w
              | Some d \<Rightarrow>
                  (case find (\<lambda>x. id' x = qid) (quests d) of
                     None \<Rightarrow> Completed w
                   | Some q \<Rightarrow>
                       if \<not> enabled q then Completed w
                       else
                         (let q' = q\<lparr>done := \<not> done q\<rparr>;
                              copy' = write_quest copy dayIdx (\<lambda>x. id' x = qid) q';
                              p' = p\<lparr>state := Some copy'\<rparr>
                          in (case saveState h copy' of
                                Inl e \<Rightarrow> Escaped e (p', h)
                              | Inr h' \<Rightarrow> Completed (p', h')))))))"

definition toggleEnabled_v3 :: "int \<Rightarrow> jsstring \<Rightarrow> Quest_v3 Page0 \<times> Quest_v3 AppState host
    \<Rightarrow> (Quest_v3 Page0 \<times> Quest_v3 AppState host) outcome" where
  "toggleEnabled_v3 dayIdx qid w =
     (case w of (p, h) \<Rightarrow>
        (case state p of
           None \<Rightarrow> Completed w
         | Some copy \<Rightarrow>
             (case plan_at copy dayIdx of
                None \<Rightarrow> Escaped TypeError w
              | Some d \<Rightarrow>
                  (case find (\<lambda>x. id' x = qid) (quests d) of
                     None \<Rightarrow> Completed w
                   | Some q \<Rightarrow>
                       (let q1 = q\<lparr>enabled := \<not> enabled q\<rparr>;
                            q' = (if \<not> enabled q1 then q1\<lparr>done := False\<rparr> else q1);
                            copy' = write_quest copy dayIdx (\<lambda>x. id' x = qid) q';
                            p' = p\<lparr>state := Some copy'\<rparr>
                        in (case saveState h copy' of
                              Inl e \<Rightarrow> Escaped e (p', h)
                            | Inr h' \<Rightarrow> Completed (p', h')))))))"

definition generate_v3 :: "(real \<Rightarrow> jsstring) \<Rightarrow> (nat \<Rightarrow> real) \<Rightarrow> jsstring
    \<Rightarrow> Quest_v3 Page0 \<times> Quest_v3 AppState host
    \<Rightarrow> (Quest_v3 Page0 \<times> Quest_v3 AppState host) outcome" where
  "generate_v3 toString36 random now w =
     (case w of (p, h) \<Rightarrow>
        (let base = (if selected p \<noteq> [] then selected p else [Undou, Gakushuu]);
             next = \<lparr>selectedCategories = base,
                     plans = buildWeekPlan_v3 toString36 random base,
                     createdAt = Some now, theme = None\<rparr>;
             p' = p\<lparr>state := Some next\<rparr>
         in (case saveState h next of
               Inl e \<Rightarrow> Escaped e (p', h)
             | Inr h' \<Rightarrow> Completed (p', h'))))"

definition mockAssistant_v3 :: "jsstring \<Rightarrow> ChatMsg list \<Rightarrow> jsstring" where
  "mockAssistant_v3 input messages =
     (if contains kw_shinchoku input \<or> contains kw_status input \<or> contains kw_suteetasu input
      then progress_message
      else if contains kw_deeta input \<or> contains kw_bunseki input
      then data_message
      else generic_message)"

text \<open>The invariant between \<open>enabled\<close> and \<open>done\<close>, over all quests of a state.\<close>

definition enabled_invariant :: "('a Quest_scheme) AppState option \<Rightarrow> bool" where
  "enabled_invariant s =
     (case s of
        None \<Rightarrow> True
      | Some a \<Rightarrow> \<forall>p \<in> set (plans a). \<forall>q \<in> set (quests p). \<not> enabled q \<longrightarrow> \<not> done q)"

section \<open>The host's JSON functions\<close>

text \<open>
  \<^verbatim>\<open>JSON.stringify\<close> and \<^verbatim>\<open>JSON.parse\<close> as ECMAScript defines them, on the values a
  state is made of: \<^verbatim>\<open>null\<close>, booleans, strings, arrays, objects with their
  properties in order, and the numbers a state holds, which are counts, printed in
  plain decimal. The parser takes white space between tokens and every string escape;
  it refuses a number with a sign, a fraction or an exponent, where the host would
  return a number that this model does not have.
\<close>

datatype json =
  JNull | JBool bool | JNum nat | JStr jsstring | JArr "json list"
  | JObj "(jsstring \<times> json) list"

definition hex_digit :: "nat \<Rightarrow> nat" where
  "hex_digit d = (if d < 10 then 0x30 + d else 0x57 + d)"

definition hex4 :: "nat \<Rightarrow> jsstring" where
  "hex4 c = [hex_digit (c div 4096 mod 16), hex_digit (c div 256 mod 16),
             hex_digit (c div 16 mod 16), hex_digit (c mod 16)]"

definition unicode_escape :: "nat \<Rightarrow> jsstring" where
  "unicode_escape c = [0x5C, 0x75] @ hex4 c"

definition is_high :: "nat \<Rightarrow> bool" where
  "is_high c = (0xD800 \<le> c \<and> c \<le> 0xDBFF)"

definition is_low :: "nat \<Rightarrow> bool" where
  "is_low c = (0xDC00 \<le> c \<and> c \<le> 0xDFFF)"

text \<open>The table of \<^verbatim>\<open>QuoteJSONString\<close> for a code unit that is not a surrogate.\<close>

definition quote_unit :: "nat \<Rightarrow> jsstring" where
  "quote_unit c =
     (if c = 0x08 then [0x5C, 0x62]
      else if c = 0x09 then [0x5C, 0x74]
      else if c = 0x0A then [0x5C, 0x6E]
      else if c = 0x0C then [0x5C, 0x66]
      else if c = 0x0D then [0x5C, 0x72]
      else if c = 0x22 then [0x5C, 0x22]
      else if c = 0x5C then [0x5C, 0x5C]
      else if c < 0x20 then unicode_escape c
      else [c])"

text \<open>A surrogate pair is written as it is; a surrogate without its partner is escaped.\<close>

fun quote_units :: "jsstring \<Rightarrow> jsstring" where
  "quote_units [] = []"
| "quote_units [c] = (if is_high c \<or> is_low c then unicode_escape c else quote_unit c)"
| "quote_units (c # d # s) =
     (if is_high c \<and> is_low d then c # d # quote_units s
      else if is_high c \<or> is_low c then unicode_escape c @ quote_units (d # s)
      else quote_unit c @ quote_units (d # s))"

definition quote :: "jsstring \<Rightarrow> jsstring" where
  "quote s = 0x22 # quote_units s @ [0x22]"

function decimal :: "nat \<Rightarrow> jsstring" where
  "decimal n = (if n < 10 then [0x30 + n] else decimal (n div 10) @ [0x30 + n mod 10])"
  by pat_completeness auto
termination
  by (relation "measure (\<lambda>n. n)") auto

declare decimal.simps [simp del]

fun stringify :: "json \<Rightarrow> jsstring" where
  "stringify JNull = ascii ''null''"
| "stringify (JBool b) = (if b then ascii ''true'' else ascii ''false'')"
| "stringify (JNum n) = decimal n"
| "stringify (JStr s) = quote s"
| "stringify (JArr xs) = [0x5B] @ join [0x2C] (map stringify xs) @ [0x5D]"
| "stringify (JObj kvs) =
     [0x7B] @ join [0x2C] (map (\<lambda>kv. quote (fst kv) @ [0x3A] @ stringify (snd kv)) kvs) @ [0x7D]"

definition is_ws :: "nat \<Rightarrow> bool" where
  "is_ws c = (c = 0x20 \<or> c = 0x09 \<or> c = 0x0A \<or> c = 0x0D)"

definition skip_ws :: "jsstring \<Rightarrow> jsstring" where
  "skip_ws s = dropWhile is_ws s"

definition hex_val :: "nat \<Rightarrow> nat option" where
  "hex_val c =
     (if 0x30 \<le> c \<and> c \<le> 0x39 then Some (c - 0x30)
      else if 0x61 \<le> c \<and> c \<le> 0x66 then Some (c - 0x57)
      else if 0x41 \<le> c \<and> c \<le> 0x46 then Some (c - 0x37)
      else None)"

definition unescape :: "nat \<Rightarrow> nat option" where
  "unescape e =
     (if e = 0x22 then Some 0x22
      else if e = 0x5C then Some 0x5C
      else if e = 0x2F then Some 0x2F
      else if e = 0x62 then Some 0x08
      else if e = 0x66 then Some 0x0C
      else if e = 0x6E then Some 0x0A
      else if e = 0x72 then Some 0x0D
      else if e = 0x74 then Some 0x09
      else None)"

definition hex4_val :: "nat \<Rightarrow> nat \<Rightarrow> nat \<Rightarrow> nat \<Rightarrow> nat option" where
  "hex4_val a b c d =
     (case hex_val a of None \<Rightarrow> None | Some x3 \<Rightarrow>
      (case hex_val b of None \<Rightarrow> None | Some x2 \<Rightarrow>
       (case hex_val c of None \<Rightarrow> None | Some x1 \<Rightarrow>
        (case hex_val d of None \<Rightarrow> None | Some x0 \<Rightarrow>
           Some (x3 * 4096 + x2 * 256 + x1 * 16 + x0)))))"

text \<open>The characters of a string after its opening quote, up to the closing one.\<close>

fun parse_chars :: "jsstring \<Rightarrow> (jsstring \<times> jsstring) option" where
  "parse_chars [] = None"
| "parse_chars (c # s) =
     (if c = 0x22 then Some ([], s)
      else if c = 0x5C then
        (case s of
           [] \<Rightarrow> None
         | e # s' \<Rightarrow>
             if e = 0x75 then
               (case s' of
                  a # b # c' # d # s'' \<Rightarrow>
                    (case hex4_val a b c' d of
                       None \<Rightarrow> None
                     | Some u \<Rightarrow> map_option (\<lambda>(r, t). (u # r, t)) (parse_chars s''))
                | _ \<Rightarrow> None)
             else
               (case unescape e of
                  None \<Rightarrow> None
                | Some u \<Rightarrow> map_option (\<lambda>(r, t). (u # r, t)) (parse_chars s')))
      else if c < 0x20 then None
      else map_option (\<lambda>(r, t). (c # r, t)) (parse_chars s))"

definition is_digit :: "nat \<Rightarrow> bool" where
  "is_digit c = (0x30 \<le> c \<and> c \<le> 0x39)"

definition digits_value :: "jsstring \<Rightarrow> nat" where
  "digits_value ds = foldl (\<lambda>a d. 10 * a + (d - 0x30)) 0 ds"

definition parse_number :: "jsstring \<Rightarrow> (json \<times> jsstring) option" where
  "parse_number s =
     (let ds = takeWhile is_digit s; r = dropWhile is_digit s
      in if ds = [] then None
         else if hd ds = 0x30 \<and> 1 < length ds then None
         else if r \<noteq> [] \<and> (hd r = 0x2E \<or> hd r = 0x65 \<or> hd r = 0x45) then None
         else Some (JNum (digits_value ds), r))"

text \<open>A property that the object already has keeps its place and takes the new value.\<close>

fun set_property :: "jsstring \<Rightarrow> json \<Rightarrow> (jsstring \<times> json) list \<Rightarrow> (jsstring \<times> json) list" where
  "set_property k v [] = [(k, v)]"
| "set_property k v (p # ps) = (if fst p = k then (k, v) # ps else p # set_property k v ps)"

text \<open>
  The parser descends with a bound on its depth, which \<open>JSON_parse_text\<close> sets to the
  length of the text: every level and every element takes at least one code unit.
\<close>

fun parse_value :: "nat \<Rightarrow> jsstring \<Rightarrow> (json \<times> jsstring) option"
  and parse_elements :: "nat \<Rightarrow> jsstring \<Rightarrow> json list \<Rightarrow> (json \<times> jsstring) option"
  and parse_members :: "nat \<Rightarrow> jsstring \<Rightarrow> (jsstring \<times> json) list \<Rightarrow> (json \<times> jsstring) option"
where
  "parse_value 0 s = None"
| "parse_value (Suc f) s =
     (case skip_ws s of
        [] \<Rightarrow> None
      | c # t \<Rightarrow>
          if c = 0x7B then
            (case skip_ws t of
               [] \<Rightarrow> None
             | d # r \<Rightarrow> if d = 0x7D then Some (JObj [], r) else parse_members f t [])
          else if c = 0x5B then
            (case skip_ws t of
               [] \<Rightarrow> None
             | d # r \<Rightarrow> if d = 0x5D then Some (JArr [], r) else parse_elements f t [])
          else if c = 0x22 then map_option (\<lambda>(x, r). (JStr x, r)) (parse_chars t)
          else if startsWith (ascii ''true'') (c # t) then Some (JBool True, drop 4 (c # t))
          else if startsWith (ascii ''false'') (c # t) then Some (JBool False, drop 5 (c # t))
          else if startsWith (ascii ''null'') (c # t) then Some (JNull, drop 4 (c # t))
          else if is_digit c then parse_number (c # t)
          else None)"
| "parse_elements 0 s acc = None"
| "parse_elements (Suc f) s acc =
     (case parse_value f s of
        None \<Rightarrow> None
      | Some (v, r) \<Rightarrow>
          (case skip_ws r of
             [] \<Rightarrow> None
           | d # r' \<Rightarrow>
               if d = 0x2C then parse_elements f r' (acc @ [v])
               else if d = 0x5D then Some (JArr (acc @ [v]), r')
               else None))"
| "parse_members 0 s acc = None"
| "parse_members (Suc f) s acc =
     (case skip_ws s of
        [] \<Rightarrow> None
      | q # t \<Rightarrow>
          if q \<noteq> 0x22 then None
          else
            (case parse_chars t of
               None \<Rightarrow> None
             | Some (k, r) \<Rightarrow>
                 (case skip_ws r of
                    [] \<Rightarrow> None
                  | e # r' \<Rightarrow>
                      if e \<noteq> 0x3A then None
                      else
                        (case parse_value f r' of
                           None \<Rightarrow> None
                         | Some (v, r'') \<Rightarrow>
                             (case skip_ws r'' of
                                [] \<Rightarrow> None
                              | d # r3 \<Rightarrow>
                                  if d = 0x2C then parse_members f r3 (set_property k v acc)
                                  else if d = 0x7D then Some (JObj (set_property k v acc), r3)
                                  else None)))))"

definition JSON_parse_text :: "jsstring \<Rightarrow> error + json option" where
  "JSON_parse_text s =
     (case parse_value (length s) s of
        None \<Rightarrow> Inl SyntaxError
      | Some (v, r) \<Rightarrow>
          if skip_ws r \<noteq> [] then Inl SyntaxError
          else if v = JNull then Inr None
          else Inr (Some v))"

text \<open>
  The JavaScript value of a state: an object with its properties in the order in which
  the page writes them, and without the optional ones that are absent.
\<close>

definition quest_value :: "Quest \<Rightarrow> json" where
  "quest_value q =
     JObj [(ascii ''id'', JStr (id' q)), (ascii ''title'', JStr (title q)),
           (ascii ''done'', JBool (done q)), (ascii ''enabled'', JBool (enabled q))]"

definition plan_value :: "Quest DayPlan \<Rightarrow> json" where
  "plan_value p =
     JObj [(ascii ''day'', JNum (day p)), (ascii ''quests'', JArr (map quest_value (quests p)))]"

definition theme_value :: "Theme \<Rightarrow> json" where
  "theme_value t =
     JObj [(ascii ''backgroundColor'', JStr (backgroundColor t)),
           (ascii ''textColor'', JStr (textColor t))]"

definition state_value :: "Quest AppState \<Rightarrow> json" where
  "state_value st =
     JObj ([(ascii ''selectedCategories'', JArr (map (\<lambda>c. JStr (key_string c)) (selectedCategories st))),
            (ascii ''plans'', JArr (map plan_value (plans st)))]
           @ (case createdAt st of None \<Rightarrow> [] | Some c \<Rightarrow> [(ascii ''createdAt'', JStr c)])
           @ (case theme st of None \<Rightarrow> [] | Some t \<Rightarrow> [(ascii ''theme'', theme_value t)]))"

text \<open>A host with these JSON functions, holding JavaScript values.\<close>

definition json_host :: "localStorage option \<Rightarrow> json host" where
  "json_host w = \<lparr>window = w, JSON_stringify = stringify, JSON_parse = JSON_parse_text\<rparr>"

text \<open>
  A value whose objects name every property once, and the code units that can come
  after a value inside a text.
\<close>

fun wf_json :: "json \<Rightarrow> bool" where
  "wf_json (JArr xs) = (\<forall>x \<in> set xs. wf_json x)"
| "wf_json (JObj kvs) = (distinct (map fst kvs) \<and> (\<forall>kv \<in> set kvs. wf_json (snd kv)))"
| "wf_json v = True"

definition follow :: "jsstring \<Rightarrow> bool" where
  "follow rest = (rest = [] \<or> hd rest = 0x2C \<or> hd rest = 0x5D \<or> hd rest = 0x7D)"

section \<open>Sample inputs\<close>

text \<open>
  Two random sources for concrete runs: one whose every draw renders as \<^verbatim>\<open>0.i\<close>
  (the rendering of one half), and one whose \<open>n\<close>-th draw renders as \<^verbatim>\<open>0.\<close>
  followed by the \<open>n\<close>-th code unit from \<^verbatim>\<open>a\<close> on.
\<close>

definition stuck_random :: "nat \<Rightarrow> jsstring" where
  "stuck_random n = ascii ''0.i''"

definition fresh_random :: "nat \<Rightarrow> jsstring" where
  "fresh_random n = ascii ''0.'' @ [0x61 + n]"

text \<open>
  A small state with its JSON text, a toy codec that knows that text and \<^verbatim>\<open>null\<close>,
  and three hosts: one without a window, a browser with a given store, and a browser
  whose store denies access.
\<close>

definition sample_state :: "Quest AppState" where
  "sample_state = \<lparr>selectedCategories = [], plans = [], createdAt = None, theme = None\<rparr>"

definition sample_json :: jsstring where
  "sample_json =
     [0x007B, 0x0022, 0x0073, 0x0065, 0x006C, 0x0065, 0x0063, 0x0074, 0x0065, 0x0064,
      0x0043, 0x0061, 0x0074, 0x0065, 0x0067, 0x006F, 0x0072, 0x0069, 0x0065, 0x0073,
      0x0022, 0x003A, 0x005B, 0x005D, 0x002C, 0x0022, 0x0070, 0x006C, 0x0061, 0x006E,
      0x0073, 0x0022, 0x003A, 0x005B, 0x005D, 0x007D]"

definition sample_stringify :: "Quest AppState \<Rightarrow> jsstring" where
  "sample_stringify st = (if st = sample_state then sample_json else ascii ''{}'')"

definition sample_parse :: "jsstring \<Rightarrow> error + Quest AppState option" where
  "sample_parse s =
     (if s = sample_json then Inr (Some sample_state)
      else if s = ascii ''null'' then Inr None
      else Inl SyntaxError)"

definition server_host :: "Quest AppState host" where
  "server_host =
     \<lparr>window = None, JSON_stringify = sample_stringify, JSON_parse = sample_parse\<rparr>"

definition browser_host :: "(jsstring \<rightharpoonup> jsstring) \<Rightarrow> Quest AppState host" where
  "browser_host m =
     \<lparr>window = Some \<lparr>denied = False, capacity = 5000000, items = m\<rparr>,
      JSON_stringify = sample_stringify, JSON_parse = sample_parse\<rparr>"

definition blocked_host :: "Quest AppState host" where
  "blocked_host =
     \<lparr>window = Some \<lparr>denied = True, capacity = 5000000, items = Map.empty\<rparr>,
      JSON_stringify = sample_stringify, JSON_parse = sample_parse\<rparr>"

text \<open>The page as \<open>generate\<close> leaves it for the default selection and the second source.\<close>

definition sample_now :: jsstring where
  "sample_now = ascii ''2025-01-01T00:00:00.000Z''"

definition sample_app :: "Quest AppState" where
  "sample_app =
     \<lparr>selectedCategories = [Undou, Gakushuu],
      plans = buildWeekPlan fresh_random [Undou, Gakushuu],
      createdAt = Some sample_now, theme = None\<rparr>"

definition sample_page :: Page where
  "sample_page = \<lparr>state = Some sample_app, selected = [], score = 0\<rparr>"

text \<open>A store that grants access, with room for five million code units.\<close>

definition sample_store :: localStorage where
  "sample_store = \<lparr>denied = False, capacity = 5000000, items = Map.empty\<rparr>"

section \<open>Rank thresholds\<close>

lemma indexOf_rankOrder [simp]:
  "indexOf rankOrder Novice = 0" "indexOf rankOrder Squire = 1" "indexOf rankOrder Knight = 2"
  "indexOf rankOrder Marquis = 3" "indexOf rankOrder Duke = 4" "indexOf rankOrder Sovereign = 5"
  by (simp_all add: rankOrder_def)

text \<open>
  Claim C4. For every score \<open>s \<ge> 0\<close>, \<open>calculateRank s\<close> is a tier whose threshold is
  at most \<open>s\<close>, and no tier with a threshold at most \<open>s\<close> stands higher in the order
  of the six tiers; so \<open>calculateRank\<close> is monotone in the score, gives the lowest tier
  at 0 and the highest at 1000.
\<close>

theorem calculateRank_highest_tier:
  assumes "0 \<le> s" and "s \<le> t"
  shows "thresholdByRank (calculateRank s) \<le> s
     \<and> (\<forall>r. thresholdByRank r \<le> s
            \<longrightarrow> indexOf rankOrder r \<le> indexOf rankOrder (calculateRank s))
     \<and> indexOf rankOrder (calculateRank s) \<le> indexOf rankOrder (calculateRank t)
     \<and> calculateRank 0 = Novice \<and> calculateRank 1000 = Sovereign"
proof -
  have a: "thresholdByRank (calculateRank s) \<le> s"
    using assms(1) by simp
  have b: "indexOf rankOrder r \<le> indexOf rankOrder (calculateRank s)"
    if "thresholdByRank r \<le> s" for r
    using that by (cases r) simp_all
  have c: "indexOf rankOrder (calculateRank s) \<le> indexOf rankOrder (calculateRank t)"
    using assms(2) by simp
  show ?thesis using a b c by simp
qed

theorem calculateRank_highest_tier_witness:
  "(0::int) \<le> 75 \<and> (75::int) \<le> 120 \<and> calculateRank 75 = Squire \<and> calculateRank 120 = Knight
     \<and> thresholdByRank (calculateRank 75) \<le> 75
     \<and> thresholdByRank Squire \<le> 75
     \<and> indexOf rankOrder Squire \<le> indexOf rankOrder (calculateRank 75)
     \<and> indexOf rankOrder (calculateRank 75) \<le> indexOf rankOrder (calculateRank 120)"
  using calculateRank_highest_tier [of 75 120] by simp

section \<open>The generated plan\<close>

lemma length_TEMPLATE_QUESTS [simp]: "length (TEMPLATE_QUESTS c) = 3"
  by (cases c) simp_all

lemma pick_titles_eq:
  "pick_titles i idx cat =
     [TEMPLATE_QUESTS cat ! ((i + idx) mod 3), TEMPLATE_QUESTS cat ! ((i + idx + 1) mod 3)]"
  by (simp add: pick_titles_def Let_def mod_simps)

lemma push_two:
  "push_titles r [a, b] n qs =
     (qs @ [\<lparr>id' = uid r n, title = a, done = False, enabled = True\<rparr>,
            \<lparr>id' = uid r (Suc n), title = b, done = False, enabled = True\<rparr>], Suc (Suc n))"
  by simp

lemma forEach_selected_count:
  "snd (forEach_selected r i idx cats n qs) = n + 2 * length cats"
  by (induction cats arbitrary: idx n qs) (simp_all add: pick_titles_eq)

lemma forEach_selected_titles:
  "map title (fst (forEach_selected r i idx cats n qs)) =
     map title qs @ concat (map (\<lambda>(k, cat). pick_titles i k cat) (enumerate idx cats))"
  by (induction cats arbitrary: idx n qs) (simp_all add: pick_titles_eq)

lemma upt_two: "[n ..< Suc (Suc n) + m] = n # Suc n # [Suc (Suc n) ..< Suc (Suc n) + m]"
  by (simp add: upt_conv_Cons del: upt_Suc)

lemma forEach_selected_ids:
  "map id' (fst (forEach_selected r i idx cats n qs)) =
     map id' qs @ map (uid r) [n ..< n + 2 * length cats]"
proof (induction cats arbitrary: idx n qs)
  case Nil
  show ?case by simp
next
  case (Cons cat cats)
  have "n + 2 * length (cat # cats) = Suc (Suc n) + 2 * length cats"
    by simp
  then have "[n ..< n + 2 * length (cat # cats)]
      = n # Suc n # [Suc (Suc n) ..< Suc (Suc n) + 2 * length cats]"
    by (simp only: upt_two)
  then show ?case
    by (simp add: pick_titles_eq Cons.IH)
qed

lemma forEach_selected_flags:
  "q \<in> set (fst (forEach_selected r i idx cats n qs)) \<Longrightarrow> q \<in> set qs \<or> (\<not> done q \<and> enabled q)"
  by (induction cats arbitrary: idx n qs) (fastforce simp add: pick_titles_eq)+

lemma days_loop_closed:
  "i \<le> 8 \<Longrightarrow> days_loop r cats i n days =
     days @ map (\<lambda>d. \<lparr>day = d, quests = take 5 (fst (forEach_selected r d 0 cats
                        (n + (d - i) * (2 * length cats)) []))\<rparr>) [i..<8]"
proof (induction "8 - i" arbitrary: i n days)
  case 0
  then have "i = 8" by simp
  then show ?case by (simp add: days_loop.simps)
next
  case (Suc k)
  then have i: "i \<le> 7" and k: "k = 8 - Suc i" and i8: "Suc i \<le> 8" by simp_all
  have up: "[i..<8] = i # [Suc i..<8]" using i by (simp add: upt_conv_Cons)
  have rest: "map (\<lambda>d. \<lparr>day = d, quests = take 5 (fst (forEach_selected r d 0 cats
                  (n + 2 * length cats + (d - Suc i) * (2 * length cats)) []))\<rparr>) [Suc i..<8]
            = map (\<lambda>d. \<lparr>day = d, quests = take 5 (fst (forEach_selected r d 0 cats
                  (n + (d - i) * (2 * length cats)) []))\<rparr>) [Suc i..<8]"
  proof (rule map_cong [OF refl])
    fix d assume "d \<in> set [Suc i..<8]"
    then have "d - i = Suc (d - Suc i)" by auto
    then show "\<lparr>day = d, quests = take 5 (fst (forEach_selected r d 0 cats
                  (n + 2 * length cats + (d - Suc i) * (2 * length cats)) []))\<rparr>
             = \<lparr>day = d, quests = take 5 (fst (forEach_selected r d 0 cats
                  (n + (d - i) * (2 * length cats)) []))\<rparr>"
      by (simp add: add.assoc)
  qed
  have "days_loop r cats i n days =
      days_loop r cats (Suc i) (n + 2 * length cats)
        (days @ [\<lparr>day = i, quests = take 5 (fst (forEach_selected r i 0 cats n []))\<rparr>])"
    using i
    by (subst days_loop.simps)
       (simp add: split_beta Let_def slice_def forEach_selected_count)
  also have "\<dots> = (days @ [\<lparr>day = i, quests = take 5 (fst (forEach_selected r i 0 cats n []))\<rparr>])
      @ map (\<lambda>d. \<lparr>day = d, quests = take 5 (fst (forEach_selected r d 0 cats
                  (n + 2 * length cats + (d - Suc i) * (2 * length cats)) []))\<rparr>) [Suc i..<8]"
    by (rule Suc.hyps(1) [OF k i8])
  also have "\<dots> = days @ map (\<lambda>d. \<lparr>day = d, quests = take 5 (fst (forEach_selected r d 0 cats
                        (n + (d - i) * (2 * length cats)) []))\<rparr>) [i..<8]"
    by (simp only: rest up list.map append_assoc append_Cons append_Nil diff_self_eq_0
          mult_0 add_0_right)
  finally show ?case .
qed

lemma buildWeekPlan_closed:
  "buildWeekPlan r cats =
     map (\<lambda>d. \<lparr>day = d, quests = take 5 (fst (forEach_selected r d 0 cats
                  ((d - 1) * (2 * length cats)) []))\<rparr>) [1..<8]"
  by (simp add: buildWeekPlan_def days_loop_closed del: upt_Suc)


lemma uid_stuck: "uid stuck_random n = ascii ''i''"
  by (simp add: uid_def stuck_random_def slice_def ascii_def)

lemma uid_fresh: "uid fresh_random n = [0x61 + n]"
  by (simp add: uid_def fresh_random_def slice_def ascii_def)


lemma buildWeekPlan_length: "length (buildWeekPlan r cats) = 7"
  by (simp add: buildWeekPlan_closed del: upt_Suc)

lemma buildWeekPlan_nth:
  "i < 7 \<Longrightarrow> buildWeekPlan r cats ! i =
     \<lparr>day = Suc i, quests = take 5 (fst (forEach_selected r (Suc i) 0 cats
                  (i * (2 * length cats)) []))\<rparr>"
  by (simp add: buildWeekPlan_closed del: upt_Suc)

lemma buildWeekPlan_mem:
  "p \<in> set (buildWeekPlan r cats) \<Longrightarrow> \<exists>i<7. p = buildWeekPlan r cats ! i"
  by (metis buildWeekPlan_length in_set_conv_nth)

lemma length_forEach_selected:
  "length (fst (forEach_selected r i idx cats n qs)) = length qs + 2 * length cats"
  using arg_cong [OF forEach_selected_ids [of r i idx cats n qs], of length] by simp

text \<open>
  Claim C10. For a selection of \<open>k \<ge> 1\<close> categories the plan has seven days and every
  day holds exactly \<open>min (2 * k) 5\<close> quests: two for one category, four for two, and
  five for three or more.
\<close>

theorem buildWeekPlan_day_length:
  assumes "1 \<le> length cats"
  shows "length (buildWeekPlan r cats) = 7
     \<and> (\<forall>p \<in> set (buildWeekPlan r cats).
           length (quests p) = min (2 * length cats) 5
         \<and> (length cats = 1 \<longrightarrow> length (quests p) = 2)
         \<and> (length cats = 2 \<longrightarrow> length (quests p) = 4)
         \<and> (3 \<le> length cats \<longrightarrow> length (quests p) = 5))"
proof -
  have "length (quests p) = min (2 * length cats) 5" if "p \<in> set (buildWeekPlan r cats)" for p
  proof -
    from that obtain i where "i < 7" and "p = buildWeekPlan r cats ! i"
      using buildWeekPlan_mem by blast
    then show ?thesis
      by (simp add: buildWeekPlan_nth length_forEach_selected min.commute)
  qed
  then show ?thesis
    by (auto simp add: buildWeekPlan_length)
qed

theorem buildWeekPlan_day_length_witness:
  "1 \<le> length [Undou, Kinsen, Mentaru]
     \<and> length (buildWeekPlan fresh_random [Undou, Kinsen, Mentaru]) = 7
     \<and> length (quests (buildWeekPlan fresh_random [Undou, Kinsen, Mentaru] ! 0)) = 5
     \<and> length (quests (buildWeekPlan fresh_random [Undou] ! 6)) = 2"
proof -
  have a: "buildWeekPlan fresh_random [Undou, Kinsen, Mentaru] ! 0
      \<in> set (buildWeekPlan fresh_random [Undou, Kinsen, Mentaru])"
    by (simp add: buildWeekPlan_length)
  have b: "buildWeekPlan fresh_random [Undou] ! 6 \<in> set (buildWeekPlan fresh_random [Undou])"
    by (simp add: buildWeekPlan_length)
  show ?thesis
    using buildWeekPlan_day_length [of "[Undou, Kinsen, Mentaru]" fresh_random]
      buildWeekPlan_day_length [of "[Undou]" fresh_random] a b
    by simp
qed


text \<open>
  Claim C5. For a non-empty selection and a day \<open>i\<close> from 1 to 7, the titles of the
  day's quests are the pairs \<open>pool[(i + idx) mod length]\<close>, \<open>pool[(i + idx + 1) mod length]\<close>
  of the categories, concatenated in the order of the selection and cut to the first
  five. The random source does not occur in them: two runs with different sources give
  the same titles in the same order.
\<close>

theorem buildWeekPlan_titles:
  assumes "cats \<noteq> []" and "1 \<le> i" and "i \<le> 7"
  shows "day (buildWeekPlan r cats ! (i - 1)) = i
     \<and> map title (quests (buildWeekPlan r cats ! (i - 1))) =
         take 5 (concat (map (\<lambda>(idx, cat).
            [TEMPLATE_QUESTS cat ! ((i + idx) mod length (TEMPLATE_QUESTS cat)),
             TEMPLATE_QUESTS cat ! ((i + idx + 1) mod length (TEMPLATE_QUESTS cat))])
           (enumerate 0 cats)))
     \<and> map title (quests (buildWeekPlan r cats ! (i - 1))) =
         map title (quests (buildWeekPlan r' cats ! (i - 1)))"
proof -
  from assms obtain k where k: "i = Suc k" "k < 7"
    by (cases i) simp_all
  have t: "map title (quests (buildWeekPlan r cats ! k)) =
      take 5 (concat (map (\<lambda>(idx, cat). pick_titles i idx cat) (enumerate 0 cats)))" for r
    unfolding buildWeekPlan_nth [OF k(2)] k(1)
    by (simp add: take_map [symmetric] forEach_selected_titles)
  have p: "(\<lambda>(idx, cat). pick_titles i idx cat) =
      (\<lambda>(idx, cat).
            [TEMPLATE_QUESTS cat ! ((i + idx) mod length (TEMPLATE_QUESTS cat)),
             TEMPLATE_QUESTS cat ! ((i + idx + 1) mod length (TEMPLATE_QUESTS cat))])"
    by (simp add: fun_eq_iff pick_titles_eq)
  have d: "day (buildWeekPlan r cats ! k) = i"
    by (simp add: buildWeekPlan_nth [OF k(2)] k(1))
  have k': "i - 1 = k" using k by simp
  show ?thesis
    unfolding k' using d t [of r] t [of r'] by (simp only: p simp_thms)
qed

theorem buildWeekPlan_titles_witness:
  "[Undou, Gakushuu] \<noteq> [] \<and> (1::nat) \<le> 1 \<and> (1::nat) \<le> 7
     \<and> day (buildWeekPlan fresh_random [Undou, Gakushuu] ! (1 - 1)) = 1
     \<and> map title (quests (buildWeekPlan fresh_random [Undou, Gakushuu] ! (1 - 1))) =
         [TEMPLATE_QUESTS Undou ! 1, TEMPLATE_QUESTS Undou ! 2,
          TEMPLATE_QUESTS Gakushuu ! 2, TEMPLATE_QUESTS Gakushuu ! 0]"
  using buildWeekPlan_titles [of "[Undou, Gakushuu]" 1 fresh_random fresh_random]
  by (simp add: enumerate_eq_zip)

lemma segments_distinct:
  "c \<le> w \<Longrightarrow>
     distinct (concat (map (\<lambda>d. [d * w ..< d * w + c]) [0..<j]))
     \<and> (\<forall>x \<in> set (concat (map (\<lambda>d. [d * w ..< d * w + c]) [0..<j])). x < j * w)"
proof (induction j)
  case 0
  show ?case by simp
next
  case (Suc j)
  then have d: "distinct (concat (map (\<lambda>d. [d * w ..< d * w + c]) [0..<j]))"
    and b: "\<And>x. x \<in> set (concat (map (\<lambda>d. [d * w ..< d * w + c]) [0..<j])) \<Longrightarrow> x < j * w"
    by blast+
  have n: "set (concat (map (\<lambda>d. [d * w ..< d * w + c]) [0..<j])) \<inter> set [j * w ..< j * w + c] = {}"
    using b by fastforce
  have u: "x < Suc j * w"
    if "x \<in> set (concat (map (\<lambda>d. [d * w ..< d * w + c]) [0..<j])) \<or> x \<in> set [j * w ..< j * w + c]" for x
    using that
  proof
    assume "x \<in> set (concat (map (\<lambda>d. [d * w ..< d * w + c]) [0..<j]))"
    then have "x < j * w" by (rule b)
    then show ?thesis by simp
  next
    assume "x \<in> set [j * w ..< j * w + c]"
    then show ?thesis using Suc.prems by simp
  qed
  have "concat (map (\<lambda>d. [d * w ..< d * w + c]) [0..<Suc j]) =
      concat (map (\<lambda>d. [d * w ..< d * w + c]) [0..<j]) @ [j * w ..< j * w + c]"
    by simp
  then show ?case
    using d n u by (simp only: distinct_append distinct_upt set_append Un_iff simp_thms) blast
qed

lemma take_upt_min: "take m [a ..< a + l] = [a ..< a + min m l]"
  by (cases "m \<le> l") (simp_all add: min_def)

lemma buildWeekPlan_ids:
  "map id' (concat (map quests (buildWeekPlan r cats))) =
     map (uid r) (concat (map (\<lambda>d. [d * (2 * length cats) ..<
                                     d * (2 * length cats) + min 5 (2 * length cats)]) [0..<7]))"
proof -
  have "[1..<8] = map Suc [0..<7]"
    by (simp only: map_Suc_upt) simp
  then have "buildWeekPlan r cats =
      map (\<lambda>d. \<lparr>day = Suc d, quests = take 5 (fst (forEach_selected r (Suc d) 0 cats
                  (d * (2 * length cats)) []))\<rparr>) [0..<7]"
    by (simp only: buildWeekPlan_closed map_map comp_def diff_Suc_1)
  then have "map id' (concat (map quests (buildWeekPlan r cats))) =
      concat (map (\<lambda>d. take 5 (map id' (fst (forEach_selected r (Suc d) 0 cats
                  (d * (2 * length cats)) [])))) [0..<7])"
    by (simp add: map_concat comp_def take_map del: upt_Suc)
  also have "\<dots> = concat (map (\<lambda>d. map (uid r) (take 5 [d * (2 * length cats) ..<
                  d * (2 * length cats) + 2 * length cats])) [0..<7])"
    by (simp add: forEach_selected_ids take_map del: upt_Suc)
  finally show ?thesis
    by (simp only: take_upt_min map_concat map_map comp_def)
qed


lemma buildWeekPlan_flags:
  assumes "p \<in> set (buildWeekPlan r cats)" and "q \<in> set (quests p)"
  shows "\<not> done q \<and> enabled q"
proof -
  from assms(1) obtain i where "i < 7" and "p = buildWeekPlan r cats ! i"
    using buildWeekPlan_mem by blast
  with assms(2) have "q \<in> set (fst (forEach_selected r (Suc i) 0 cats (i * (2 * length cats)) []))"
    by (auto simp add: buildWeekPlan_nth dest: in_set_takeD)
  then show ?thesis
    using forEach_selected_flags by fastforce
qed

text \<open>
  Claim C1, amended. For a non-empty selection the plan has seven days, every day has at
  most five quests, and every quest is enabled and not done. The ids are the tokens
  drawn from the random source; they are pairwise distinct whenever the tokens of the
  \<open>14 * k\<close> draws of the run are. Nothing in the generator makes two draws differ, and
  with a source that repeats itself the ids collide.
\<close>

theorem buildWeekPlan_shape:
  assumes "cats \<noteq> []"
  shows "length (buildWeekPlan r cats) = 7
     \<and> (\<forall>p \<in> set (buildWeekPlan r cats).
           length (quests p) \<le> 5 \<and> (\<forall>q \<in> set (quests p). \<not> done q \<and> enabled q))
     \<and> (distinct (map (uid r) [0 ..< 14 * length cats])
          \<longrightarrow> distinct (map id' (concat (map quests (buildWeekPlan r cats)))))"
proof -
  have l: "length (quests p) \<le> 5" if "p \<in> set (buildWeekPlan r cats)" for p
  proof -
    from that obtain i where "i < 7" and "p = buildWeekPlan r cats ! i"
      using buildWeekPlan_mem by blast
    then show ?thesis by (simp add: buildWeekPlan_nth)
  qed
  have u: "distinct (map id' (concat (map quests (buildWeekPlan r cats))))"
    if inj: "distinct (map (uid r) [0 ..< 14 * length cats])"
  proof -
    let ?w = "2 * length cats"
    let ?xs = "concat (map (\<lambda>d. [d * ?w ..< d * ?w + min 5 ?w]) [0..<7])"
    have s: "distinct ?xs \<and> (\<forall>x \<in> set ?xs. x < 7 * ?w)"
      by (rule segments_distinct) simp
    then have "set ?xs \<subseteq> set [0 ..< 14 * length cats]"
      by auto
    moreover from inj have "inj_on (uid r) (set [0 ..< 14 * length cats])"
      by (simp only: distinct_map)
    ultimately have "inj_on (uid r) (set ?xs)"
      by (rule inj_on_subset [rotated])
    with s show ?thesis
      by (simp only: buildWeekPlan_ids distinct_map simp_thms)
  qed
  show ?thesis
    using l u buildWeekPlan_flags [of _ r cats] by (simp add: buildWeekPlan_length)
qed

theorem buildWeekPlan_shape_witness:
  "[Undou] \<noteq> [] \<and> distinct (map (uid fresh_random) [0 ..< 14 * length [Undou]])
     \<and> length (buildWeekPlan fresh_random [Undou]) = 7
     \<and> length (quests (buildWeekPlan fresh_random [Undou] ! 0)) \<le> 5
     \<and> distinct (map id' (concat (map quests (buildWeekPlan fresh_random [Undou]))))"
proof -
  have d: "distinct (map (uid fresh_random) [0 ..< 14 * length [Undou]])"
    by (simp add: distinct_map inj_on_def uid_fresh)
  have a: "buildWeekPlan fresh_random [Undou] ! 0 \<in> set (buildWeekPlan fresh_random [Undou])"
    by (simp add: buildWeekPlan_length)
  show ?thesis
    using buildWeekPlan_shape [of "[Undou]" fresh_random] d a by simp
qed

theorem buildWeekPlan_ids_counterexample:
  "[Undou] \<noteq> [] \<and> \<not> distinct (map id' (concat (map quests (buildWeekPlan stuck_random [Undou]))))"
  by (simp add: buildWeekPlan_ids upt_conv_Cons uid_stuck)

section \<open>The assistant's help rule\<close>

text \<open>
  Claim C9. For the input \<^verbatim>\<open>help\<close> the first rule of \<open>mockAssistant\<close>, the help
  and usage rule, matches, and the reply is the fixed usage message whatever the
  history, the host's lower-casing and the random source are: every call gives the
  same reply.
\<close>

theorem mockAssistant_help:
  "startsWith kw_help (trim (ascii ''help''))
   \<and> mockAssistant toLowerCase random (ascii ''help'') history = usage_message"
  by (simp add: mockAssistant_def trim_def is_space_def ascii_def kw_help_def Let_def)

text \<open>
  Any text that starts with \<^verbatim>\<open>help\<close> after trimming takes the same path, and two runs
  can differ in their reply only when no rule matches, that is on the fallback path.
  The placeholder assistant of the redesigned page has no help rule.
\<close>

lemma mockAssistant_help_prefix:
  "startsWith kw_help (trim input) \<Longrightarrow> mockAssistant toLowerCase random input history = usage_message"
  by (simp add: mockAssistant_def Let_def)

lemma mockAssistant_random_only_in_fallback:
  assumes "mockAssistant toLowerCase random input history
      \<noteq> mockAssistant toLowerCase random' input history"
  shows "\<not> startsWith kw_help (trim input) \<and> \<not> startsWith kw_herupu (trim input)
     \<and> \<not> contains kw_komatta (trim input) \<and> \<not> contains kw_dou_tsuka (trim input)
     \<and> \<not> contains kw_konnichiwa (trim input) \<and> \<not> contains kw_hajimemashite (trim input)
     \<and> \<not> contains kw_konchiwa (trim input)
     \<and> \<not> contains kw_tenki (toLowerCase (trim input))
     \<and> \<not> contains kw_weather (toLowerCase (trim input))
     \<and> \<not> contains kw_eitango (trim input) \<and> \<not> contains kw_tango (trim input)
     \<and> \<not> contains kw_eigo (trim input)
     \<and> \<not> contains kw_undou (trim input) \<and> \<not> contains kw_kintore (trim input)
     \<and> \<not> contains kw_sutoretchi (trim input) \<and> \<not> contains kw_hashi (trim input)
     \<and> \<not> (trim input \<noteq> [] \<and> last (trim input) \<in> {0x003F, 0xFF1F})"
  using assms
  by (simp add: mockAssistant_def Let_def split: if_splits)

lemma mockAssistant_v3_help: "mockAssistant_v3 (ascii ''help'') messages = generic_message"
  by (simp add: mockAssistant_v3_def ascii_def kw_shinchoku_def kw_status_def kw_suteetasu_def
        kw_deeta_def kw_bunseki_def)

section \<open>Persistence\<close>

text \<open>
  Claim C8. \<open>loadState\<close> never raises: on every host it returns a value, and that
  value is absent when there is no window, when the store denies access, when the key
  is missing, and when the stored text does not parse.
\<close>

theorem loadState_never_throws:
  "(\<exists>v. loadState h = Inr v)
   \<and> (window h = None \<longrightarrow> loadState h = Inr None)
   \<and> (\<forall>ls. window h = Some ls \<and> denied ls \<longrightarrow> loadState h = Inr None)
   \<and> (\<forall>ls. window h = Some ls \<and> \<not> denied ls \<and> items ls STORAGE_KEY = None
          \<longrightarrow> loadState h = Inr None)
   \<and> (\<forall>ls raw. window h = Some ls \<and> \<not> denied ls \<and> items ls STORAGE_KEY = Some raw
          \<and> JSON_parse h raw = Inl SyntaxError \<longrightarrow> loadState h = Inr None)"
  by (auto simp add: loadState_def loadState_try_def getItem_def
        split: option.splits sum.splits)

theorem loadState_never_throws_witness:
  "window server_host = None \<and> loadState server_host = Inr None
   \<and> window blocked_host = Some \<lparr>denied = True, capacity = 5000000, items = Map.empty\<rparr>
   \<and> loadState blocked_host = Inr None
   \<and> window (browser_host Map.empty) = Some \<lparr>denied = False, capacity = 5000000, items = Map.empty\<rparr>
   \<and> loadState (browser_host Map.empty) = Inr None
   \<and> window (browser_host [STORAGE_KEY \<mapsto> ascii ''{oops'']) =
        Some \<lparr>denied = False, capacity = 5000000, items = [STORAGE_KEY \<mapsto> ascii ''{oops'']\<rparr>
   \<and> JSON_parse (browser_host [STORAGE_KEY \<mapsto> ascii ''{oops'']) (ascii ''{oops'') = Inl SyntaxError
   \<and> loadState (browser_host [STORAGE_KEY \<mapsto> ascii ''{oops'']) = Inr None"
proof -
  have p: "JSON_parse (browser_host [STORAGE_KEY \<mapsto> ascii ''{oops'']) (ascii ''{oops'') = Inl SyntaxError"
    by (simp add: browser_host_def sample_parse_def sample_json_def ascii_def)
  show ?thesis
    using loadState_never_throws [of server_host] loadState_never_throws [of blocked_host]
      loadState_never_throws [of "browser_host Map.empty"]
      loadState_never_throws [of "browser_host [STORAGE_KEY \<mapsto> ascii ''{oops'']"] p
    by (simp add: server_host_def blocked_host_def browser_host_def)
qed

section \<open>The JSON round trip\<close>

text \<open>
  Parsing the text that \<open>stringify\<close> prints gives the value back: first for strings
  with their escapes, then for numbers, then for every value by induction.
\<close>

lemma hex_val_digit: "d < 16 \<Longrightarrow> hex_val (hex_digit d) = Some d"
  by (auto simp add: hex_val_def hex_digit_def)

lemma hex4_val_hex4:
  assumes "c < 65536"
  shows "hex4_val (hex4 c ! 0) (hex4 c ! 1) (hex4 c ! 2) (hex4 c ! 3) = Some c"
proof -
  define x where "x = c div 16"
  define y where "y = x div 16"
  define z where "z = y div 16"
  have c: "c = x * 16 + c mod 16" and x: "x = y * 16 + x mod 16" and y: "y = z * 16 + y mod 16"
    by (simp_all add: x_def y_def z_def)
  have y': "c div 256 = y" and z': "c div 4096 = z"
    by (simp_all add: x_def y_def z_def div_mult2_eq)
  have "z < 16"
    using assms unfolding z' [symmetric] by simp
  then have zm: "z mod 16 = z" by simp
  have "z * 4096 + y mod 16 * 256 + x mod 16 * 16 + c mod 16 = c"
    using c x y by linarith
  moreover have "hex_val (hex_digit z) = Some z"
    using \<open>z < 16\<close> by (rule hex_val_digit)
  moreover have "hex_val (hex_digit (y mod 16)) = Some (y mod 16)"
    "hex_val (hex_digit (x mod 16)) = Some (x mod 16)"
    "hex_val (hex_digit (c mod 16)) = Some (c mod 16)"
    by (simp_all add: hex_val_digit)
  ultimately show ?thesis
    by (simp add: hex4_val_def hex4_def y' z' zm x_def [symmetric])
qed

lemma parse_chars_escape:
  "c < 65536 \<Longrightarrow>
     parse_chars (unicode_escape c @ t) = map_option (\<lambda>(r, t). (c # r, t)) (parse_chars t)"
  using hex4_val_hex4 [of c] by (simp add: unicode_escape_def hex4_def)

lemma parse_chars_quote_unit:
  "\<not> is_high c \<Longrightarrow> \<not> is_low c \<Longrightarrow>
     parse_chars (quote_unit c @ t) = map_option (\<lambda>(r, t). (c # r, t)) (parse_chars t)"
  by (simp add: quote_unit_def parse_chars_escape unescape_def)

lemma parse_chars_raw:
  "is_high c \<or> is_low c \<Longrightarrow>
     parse_chars (c # t) = map_option (\<lambda>(r, t). (c # r, t)) (parse_chars t)"
  by (auto simp add: is_high_def is_low_def)

lemma surrogate_small: "is_high c \<or> is_low c \<Longrightarrow> c < 65536"
  by (auto simp add: is_high_def is_low_def)

lemma parse_chars_quote_units:
  "parse_chars (quote_units s @ 0x22 # rest) = Some (s, rest)"
proof (induction s rule: quote_units.induct)
  case 1
  show ?case by simp
next
  case (2 c)
  show ?case
    by (simp add: parse_chars_escape parse_chars_quote_unit surrogate_small)
next
  case (3 c d s)
  show ?case
  proof (cases "is_high c \<and> is_low d")
    case True
    then have e: "quote_units (c # d # s) = c # d # quote_units s"
      by simp
    have "parse_chars (c # d # quote_units s @ 0x22 # rest) = Some (c # d # s, rest)"
      using True "3.IH"(1) by (simp add: parse_chars_raw del: parse_chars.simps)
    then show ?thesis
      by (simp only: e append_Cons)
  next
    case False
    note nf = this
    show ?thesis
    proof (cases "is_high c \<or> is_low c")
      case True
      with nf have e: "quote_units (c # d # s) = unicode_escape c @ quote_units (d # s)"
        by auto
      have "parse_chars (unicode_escape c @ quote_units (d # s) @ 0x22 # rest)
          = Some (c # d # s, rest)"
        using True nf "3.IH"(2) by (simp add: parse_chars_escape surrogate_small)
      then show ?thesis
        by (simp only: e append_assoc)
    next
      case False
      with nf have e: "quote_units (c # d # s) = quote_unit c @ quote_units (d # s)"
        by auto
      have "parse_chars (quote_unit c @ quote_units (d # s) @ 0x22 # rest)
          = Some (c # d # s, rest)"
        using False nf "3.IH"(3) by (simp add: parse_chars_quote_unit)
      then show ?thesis
        by (simp only: e append_assoc)
    qed
  qed
qed

lemma quote_append: "quote s @ rest = 0x22 # quote_units s @ 0x22 # rest"
  by (simp add: quote_def)

lemma decimal_digits: "c \<in> set (decimal n) \<Longrightarrow> is_digit c"
proof (induction n arbitrary: c rule: decimal.induct)
  case (1 n)
  show ?case
  proof (cases "n < 10")
    case True
    then show ?thesis using "1.prems" by (simp add: decimal.simps [of n] is_digit_def)
  next
    case False
    then have "c \<in> set (decimal (n div 10)) \<or> c = 0x30 + n mod 10"
      using "1.prems" by (auto simp add: decimal.simps [of n])
    then show ?thesis
    proof
      assume "c \<in> set (decimal (n div 10))"
      then show ?thesis using False by (rule "1.IH" [rotated])
    next
      assume "c = 0x30 + n mod 10"
      then show ?thesis by (simp add: is_digit_def)
    qed
  qed
qed

lemma decimal_not_Nil: "decimal n \<noteq> []"
  by (simp add: decimal.simps [of n])

lemma digits_value_snoc: "digits_value (ds @ [d]) = 10 * digits_value ds + (d - 0x30)"
  by (simp add: digits_value_def)

lemma digits_value_decimal: "digits_value (decimal n) = n"
proof (induction n rule: decimal.induct)
  case (1 n)
  show ?case
  proof (cases "n < 10")
    case True
    then show ?thesis by (simp add: decimal.simps [of n] digits_value_def)
  next
    case False
    then have "digits_value (decimal n) = 10 * (n div 10) + n mod 10"
      using "1.IH" by (simp add: decimal.simps [of n] digits_value_snoc)
    then show ?thesis by simp
  qed
qed

lemma decimal_leading:
  "hd (decimal n) = 0x30 \<Longrightarrow> length (decimal n) = 1"
proof (induction n rule: decimal.induct)
  case (1 n)
  show ?case
  proof (cases "n < 10")
    case True
    then show ?thesis by (simp add: decimal.simps [of n])
  next
    case False
    then have h: "hd (decimal (n div 10)) = 0x30"
      using "1.prems" by (simp add: decimal.simps [of n] decimal_not_Nil)
    with False have "length (decimal (n div 10)) = 1"
      by (rule "1.IH")
    moreover have "digits_value (decimal (n div 10)) = n div 10"
      by (rule digits_value_decimal)
    ultimately have "n div 10 = 0"
      using h by (cases "decimal (n div 10)") (simp_all add: digits_value_def)
    with False show ?thesis by simp
  qed
qed

lemma parse_number_decimal:
  assumes "follow rest"
  shows "parse_number (decimal n @ rest) = Some (JNum n, rest)"
proof -
  have nd: "rest = [] \<or> \<not> is_digit (hd rest)"
    using assms by (auto simp add: follow_def is_digit_def)
  then have r: "takeWhile is_digit rest = []" "dropWhile is_digit rest = rest"
    by (cases rest; simp)+
  have all: "\<forall>c \<in> set (decimal n). is_digit c"
    using decimal_digits by blast
  have t: "takeWhile is_digit (decimal n @ rest) = decimal n"
    using all r by (simp add: takeWhile_append2)
  have d: "dropWhile is_digit (decimal n @ rest) = rest"
    using all r by (simp add: dropWhile_append2)
  have l: "\<not> (hd (decimal n) = 0x30 \<and> 1 < length (decimal n))"
    using decimal_leading [of n] by auto
  have f: "\<not> (rest \<noteq> [] \<and> (hd rest = 0x2E \<or> hd rest = 0x65 \<or> hd rest = 0x45))"
    using assms by (auto simp add: follow_def)
  show ?thesis
    unfolding parse_number_def Let_def t d
    using l f by (simp add: decimal_not_Nil digits_value_decimal)
qed

text \<open>The first code unit of a printed value tells its kind.\<close>

lemma stringify_first:
  "\<exists>c t. stringify v = c # t \<and> \<not> is_ws c \<and> c \<noteq> 0x5D \<and> c \<noteq> 0x7D
     \<and> (is_digit c \<longleftrightarrow> (\<exists>n. v = JNum n))
     \<and> (c = 0x22 \<longleftrightarrow> (\<exists>s. v = JStr s)) \<and> (c = 0x5B \<longleftrightarrow> (\<exists>xs. v = JArr xs))
     \<and> (c = 0x7B \<longleftrightarrow> (\<exists>kvs. v = JObj kvs))
     \<and> (c = 0x6E \<longleftrightarrow> v = JNull)
     \<and> (c = 0x74 \<longleftrightarrow> v = JBool True) \<and> (c = 0x66 \<longleftrightarrow> v = JBool False)"
proof (cases v)
  case (JNum n)
  obtain c t where ct: "decimal n = c # t"
    using decimal_not_Nil [of n] by (cases "decimal n") auto
  then have "is_digit c"
    using decimal_digits [of c n] by simp
  then show ?thesis
    using JNum ct by (auto simp add: is_digit_def is_ws_def)
qed (auto simp add: ascii_def is_ws_def is_digit_def quote_def)

lemma skip_ws_Cons: "\<not> is_ws c \<Longrightarrow> skip_ws (c # s) = c # s"
  by (simp add: skip_ws_def)

lemma length_stringify_pos: "0 < length (stringify v)"
  using stringify_first [of v] by auto

lemma parse_value_array_empty: "parse_value (Suc f) (0x5B # 0x5D # rest) = Some (JArr [], rest)"
  by (simp add: skip_ws_def is_ws_def)

lemma parse_value_array:
  "\<not> is_ws d \<Longrightarrow> d \<noteq> 0x5D \<Longrightarrow>
     parse_value (Suc f) (0x5B # d # t) = parse_elements f (d # t) []"
  by (simp add: skip_ws_def is_ws_def)

lemma parse_value_object_empty: "parse_value (Suc f) (0x7B # 0x7D # rest) = Some (JObj [], rest)"
  by (simp add: skip_ws_def is_ws_def)

lemma parse_value_object:
  "\<not> is_ws d \<Longrightarrow> d \<noteq> 0x7D \<Longrightarrow>
     parse_value (Suc f) (0x7B # d # t) = parse_members f (d # t) []"
  by (simp add: skip_ws_def is_ws_def)

lemma parse_value_string:
  "parse_value (Suc f) (0x22 # t) = map_option (\<lambda>(x, r). (JStr x, r)) (parse_chars t)"
  by (simp add: skip_ws_def is_ws_def)

lemma parse_value_number:
  "is_digit c \<Longrightarrow> parse_value (Suc f) (c # t) = parse_number (c # t)"
  by (auto simp add: skip_ws_def is_ws_def is_digit_def ascii_def)

lemma parse_value_literals:
  "parse_value (Suc f) (ascii ''null'' @ rest) = Some (JNull, rest)"
  "parse_value (Suc f) (ascii ''true'' @ rest) = Some (JBool True, rest)"
  "parse_value (Suc f) (ascii ''false'' @ rest) = Some (JBool False, rest)"
  by (simp_all add: skip_ws_def is_ws_def ascii_def)

lemma set_property_new: "k \<notin> fst ` set acc \<Longrightarrow> set_property k v acc = acc @ [(k, v)]"
  by (induction acc) auto

lemma follow_simps [simp]:
  "follow (0x2C # r)" "follow (0x5D # r)" "follow (0x7D # r)" "follow []"
  by (simp_all add: follow_def)

lemma parse_elements_join:
  assumes "\<And>x g r. x \<in> set xs \<Longrightarrow> follow r \<Longrightarrow> length (stringify x) \<le> g
             \<Longrightarrow> parse_value g (stringify x @ r) = Some (x, r)"
    and "xs \<noteq> []" and "length (join [0x2C] (map stringify xs)) < f"
  shows "parse_elements f (join [0x2C] (map stringify xs) @ 0x5D # rest) acc
       = Some (JArr (acc @ xs), rest)"
  using assms
proof (induction xs arbitrary: f acc)
  case Nil
  then show ?case by simp
next
  case (Cons x xs)
  from Cons.prems(3) obtain g where f: "f = Suc g"
    by (cases f) simp_all
  show ?case
  proof (cases xs)
    case Nil
    have "length (stringify x) \<le> g"
      using Cons.prems(3) f Nil by simp
    then have "parse_value g (stringify x @ 0x5D # rest) = Some (x, 0x5D # rest)"
      using Cons.prems(1) [of x "0x5D # rest" g] by simp
    then show ?thesis
      using Nil f by (simp add: skip_ws_def is_ws_def)
  next
    case (Cons y ys)
    let ?more = "join [0x2C] (map stringify xs)"
    have j: "join [0x2C] (map stringify (x # xs)) = stringify x @ 0x2C # ?more"
      using Cons by simp
    have lx: "length (stringify x) \<le> g" and lm: "length ?more < g"
      using Cons.prems(3) f j length_stringify_pos [of x] by simp_all
    have v: "parse_value g (stringify x @ 0x2C # ?more @ 0x5D # rest)
        = Some (x, 0x2C # ?more @ 0x5D # rest)"
      using Cons.prems(1) [of x "0x2C # ?more @ 0x5D # rest" g] lx by simp
    have rec: "parse_elements g (?more @ 0x5D # rest) (acc @ [x]) = Some (JArr ((acc @ [x]) @ xs), rest)"
      using Cons.prems(1) Cons lm by (intro Cons.IH) simp_all
    have "parse_elements (Suc g) (stringify x @ 0x2C # ?more @ 0x5D # rest) acc
        = Some (JArr (acc @ x # xs), rest)"
      using v rec by (simp add: skip_ws_def is_ws_def)
    then show ?thesis
      unfolding f j by (simp del: parse_elements.simps)
  qed
qed

lemma parse_members_step:
  assumes "parse_value g (stringify v @ d # r3) = Some (v, d # r3)" and "\<not> is_ws d"
  shows "parse_members (Suc g) (quote k @ 0x3A # stringify v @ d # r3) acc =
     (if d = 0x2C then parse_members g r3 (set_property k v acc)
      else if d = 0x7D then Some (JObj (set_property k v acc), r3)
      else None)"
proof -
  have "parse_members (Suc g) (0x22 # quote_units k @ 0x22 # 0x3A # stringify v @ d # r3) acc =
     (if d = 0x2C then parse_members g r3 (set_property k v acc)
      else if d = 0x7D then Some (JObj (set_property k v acc), r3)
      else None)"
    using assms
    by (simp add: skip_ws_def is_ws_def parse_chars_quote_units del: parse_chars.simps)
  then show ?thesis
    by (simp add: quote_def)
qed

lemma parse_members_join:
  assumes "\<And>kv g r. kv \<in> set kvs \<Longrightarrow> follow r \<Longrightarrow> length (stringify (snd kv)) \<le> g
             \<Longrightarrow> parse_value g (stringify (snd kv) @ r) = Some (snd kv, r)"
    and "kvs \<noteq> []" and "distinct (map fst (acc @ kvs))"
    and "length (join [0x2C] (map (\<lambda>kv. quote (fst kv) @ [0x3A] @ stringify (snd kv)) kvs)) < f"
  shows "parse_members f
       (join [0x2C] (map (\<lambda>kv. quote (fst kv) @ [0x3A] @ stringify (snd kv)) kvs) @ 0x7D # rest) acc
       = Some (JObj (acc @ kvs), rest)"
  using assms
proof (induction kvs arbitrary: f acc)
  case Nil
  then show ?case by simp
next
  case (Cons kv kvs)
  obtain k v where kv: "kv = (k, v)" by (cases kv)
  from Cons.prems(4) obtain g where f: "f = Suc g"
    by (cases f) simp_all
  have new: "set_property k v acc = acc @ [(k, v)]"
    using Cons.prems(3) kv by (intro set_property_new) auto
  show ?case
  proof (cases kvs)
    case Nil
    have j: "join [0x2C] (map (\<lambda>kv. quote (fst kv) @ [0x3A] @ stringify (snd kv)) (kv # kvs))
        = quote k @ 0x3A # stringify v"
      using Nil kv by simp
    have lv: "length (stringify v) \<le> g"
      using Cons.prems(4) f unfolding j by simp
    have pv: "parse_value g (stringify v @ 0x7D # rest) = Some (v, 0x7D # rest)"
      using Cons.prems(1) [of kv "0x7D # rest" g] lv kv by simp
    have "parse_members (Suc g) (quote k @ 0x3A # stringify v @ 0x7D # rest) acc
        = Some (JObj (acc @ [(k, v)]), rest)"
      using parse_members_step [OF pv, of k acc] new by (simp add: is_ws_def)
    then show ?thesis
      using Nil kv unfolding f j by (simp del: parse_members.simps)
  next
    case (Cons kv' kvs')
    let ?more = "join [0x2C] (map (\<lambda>kv. quote (fst kv) @ [0x3A] @ stringify (snd kv)) kvs)"
    have j: "join [0x2C] (map (\<lambda>kv. quote (fst kv) @ [0x3A] @ stringify (snd kv)) (kv # kvs))
        = quote k @ 0x3A # stringify v @ 0x2C # ?more"
      using Cons kv by simp
    have lv: "length (stringify v) \<le> g" and lm: "length ?more < g"
      using Cons.prems(4) f unfolding j by simp_all
    have pv: "parse_value g (stringify v @ 0x2C # ?more @ 0x7D # rest)
        = Some (v, 0x2C # ?more @ 0x7D # rest)"
      using Cons.prems(1) [of kv "0x2C # ?more @ 0x7D # rest" g] lv kv by simp
    have d: "distinct (map fst ((acc @ [(k, v)]) @ kvs))"
      using Cons.prems(3) kv by simp
    have rec: "parse_members g (?more @ 0x7D # rest) (acc @ [(k, v)])
        = Some (JObj ((acc @ [(k, v)]) @ kvs), rest)"
      using Cons.prems(1) Cons lm d by (intro Cons.IH) simp_all
    have "parse_members (Suc g) (quote k @ 0x3A # stringify v @ 0x2C # ?more @ 0x7D # rest) acc
        = Some (JObj (acc @ (k, v) # kvs), rest)"
      using parse_members_step [OF pv, of k acc] new rec by (simp add: is_ws_def)
    then show ?thesis
      using kv unfolding f j by (simp del: parse_members.simps)
  qed
qed

lemma join_map_first: "xs \<noteq> [] \<Longrightarrow> \<exists>u. join sep (map g xs) = g (hd xs) @ u"
proof (cases xs)
  case Nil
  assume "xs \<noteq> []"
  with Nil show ?thesis by simp
next
  case (Cons x ys)
  then show ?thesis by (cases ys) simp_all
qed

lemma parse_value_stringify:
  "wf_json v \<Longrightarrow> follow rest \<Longrightarrow> length (stringify v) \<le> f \<Longrightarrow>
     parse_value f (stringify v @ rest) = Some (v, rest)"
proof (induction v arbitrary: f rest)
  case JNull
  then obtain g where "f = Suc g" by (cases f) (simp_all add: ascii_def)
  then show ?case by (simp add: parse_value_literals del: parse_value.simps)
next
  case (JBool b)
  then obtain g where "f = Suc g" by (cases f) (simp_all add: ascii_def split: if_splits)
  then show ?case by (simp add: parse_value_literals del: parse_value.simps)
next
  case (JNum n)
  then obtain g where f: "f = Suc g"
    using decimal_not_Nil [of n] by (cases f) simp_all
  obtain c t where ct: "decimal n = c # t"
    using decimal_not_Nil [of n] by (cases "decimal n") auto
  then have "is_digit c"
    using decimal_digits [of c n] by simp
  then have "parse_value (Suc g) (c # t @ rest) = parse_number (c # t @ rest)"
    by (rule parse_value_number)
  then show ?case
    using parse_number_decimal [OF JNum.prems(2), of n] ct f by simp
next
  case (JStr s)
  then obtain g where f: "f = Suc g" by (cases f) (simp_all add: quote_def)
  show ?case
    unfolding f stringify.simps quote_append
    by (simp add: parse_value_string parse_chars_quote_units
          del: parse_value.simps parse_chars.simps)
next
  case (JArr xs)
  then obtain g where f: "f = Suc g" by (cases f) simp_all
  show ?case
  proof (cases "xs = []")
    case True
    then show ?thesis
      unfolding f by (simp add: parse_value_array_empty del: parse_value.simps)
  next
    case False
    let ?body = "join [0x2C] (map stringify xs)"
    have el: "\<And>x g r. x \<in> set xs \<Longrightarrow> follow r \<Longrightarrow> length (stringify x) \<le> g
        \<Longrightarrow> parse_value g (stringify x @ r) = Some (x, r)"
      using JArr.IH JArr.prems(1) by simp
    have lb: "length ?body < g"
      using JArr.prems(3) f by simp
    obtain c t where ct: "stringify (hd xs) = c # t" and c: "\<not> is_ws c" "c \<noteq> 0x5D"
      using stringify_first [of "hd xs"] by blast
    obtain u where "?body = stringify (hd xs) @ u"
      using join_map_first [OF False, of "[0x2C]" stringify] by blast
    then have b: "?body = c # t @ u"
      using ct by simp
    have s: "stringify (JArr xs) @ rest = 0x5B # c # (t @ u @ 0x5D # rest)"
      and s': "?body @ 0x5D # rest = c # (t @ u @ 0x5D # rest)"
      using b by simp_all
    have "parse_value (Suc g) (0x5B # c # (t @ u @ 0x5D # rest))
        = parse_elements g (c # (t @ u @ 0x5D # rest)) []"
      using c by (rule parse_value_array)
    moreover have "parse_elements g (?body @ 0x5D # rest) [] = Some (JArr ([] @ xs), rest)"
      using el False lb by (rule parse_elements_join)
    ultimately show ?thesis
      by (simp only: f s s' append_Nil)
  qed
next
  case (JObj kvs)
  then obtain g where f: "f = Suc g" by (cases f) simp_all
  show ?case
  proof (cases "kvs = []")
    case True
    then show ?thesis
      unfolding f by (simp add: parse_value_object_empty del: parse_value.simps)
  next
    case False
    let ?body = "join [0x2C] (map (\<lambda>kv. quote (fst kv) @ [0x3A] @ stringify (snd kv)) kvs)"
    have el: "\<And>kv g r. kv \<in> set kvs \<Longrightarrow> follow r \<Longrightarrow> length (stringify (snd kv)) \<le> g
        \<Longrightarrow> parse_value g (stringify (snd kv) @ r) = Some (snd kv, r)"
    proof -
      fix kv :: "jsstring \<times> json" and g r
      assume m: "kv \<in> set kvs" and r: "follow r" and l: "length (stringify (snd kv)) \<le> g"
      have "snd kv \<in> Basic_BNFs.snds kv"
        by (cases kv) simp
      moreover have "wf_json (snd kv)"
        using JObj.prems(1) m by simp
      ultimately show "parse_value g (stringify (snd kv) @ r) = Some (snd kv, r)"
        using JObj.IH m r l by blast
    qed
    have d: "distinct (map fst ([] @ kvs))"
      using JObj.prems(1) by simp
    have lb: "length ?body < g"
      using JObj.prems(3) f by simp
    obtain u where "?body = (quote (fst (hd kvs)) @ [0x3A] @ stringify (snd (hd kvs))) @ u"
      using join_map_first [OF False, of "[0x2C]"
          "\<lambda>kv. quote (fst kv) @ [0x3A] @ stringify (snd kv)"] by blast
    then obtain w where b: "?body = 0x22 # w"
      by (simp add: quote_def)
    have s: "stringify (JObj kvs) @ rest = 0x7B # 0x22 # (w @ 0x7D # rest)"
      and s': "?body @ 0x7D # rest = 0x22 # (w @ 0x7D # rest)"
      using b by simp_all
    have "parse_value (Suc g) (0x7B # 0x22 # (w @ 0x7D # rest))
        = parse_members g (0x22 # (w @ 0x7D # rest)) []"
      by (rule parse_value_object) (simp_all add: is_ws_def)
    moreover have "parse_members g (?body @ 0x7D # rest) [] = Some (JObj ([] @ kvs), rest)"
      using el False d lb by (rule parse_members_join)
    ultimately show ?thesis
      by (simp only: f s s' append_Nil)
  qed
qed

lemma JSON_parse_text_stringify:
  assumes "wf_json v" and "v \<noteq> JNull"
  shows "JSON_parse_text (stringify v) = Inr (Some v)"
proof -
  have "parse_value (length (stringify v)) (stringify v @ []) = Some (v, [])"
    using assms(1) by (intro parse_value_stringify) simp_all
  then show ?thesis
    using assms(2) by (simp add: JSON_parse_text_def skip_ws_def)
qed

lemma wf_quest_value: "wf_json (quest_value q)"
  by (simp add: quest_value_def ascii_def)

lemma wf_plan_value: "wf_json (plan_value p)"
  by (simp add: plan_value_def ascii_def wf_quest_value)

lemma wf_theme_value: "wf_json (theme_value t)"
  by (simp add: theme_value_def ascii_def)

lemma wf_state_value: "wf_json (state_value st)"
  by (cases "createdAt st"; cases "theme st")
     (simp_all add: state_value_def ascii_def wf_plan_value wf_theme_value)

lemma state_value_not_null: "state_value st \<noteq> JNull"
  by (simp add: state_value_def)

text \<open>Two states with the same JavaScript value are the same state.\<close>

lemma key_string_inj: "key_string a = key_string b \<Longrightarrow> a = b"
  by (cases a; cases b) simp_all

lemma quest_value_inj: "quest_value a = quest_value b \<Longrightarrow> a = b"
  by (simp add: quest_value_def)

lemma plan_value_inj: "plan_value a = plan_value b \<Longrightarrow> a = b"
proof -
  assume e: "plan_value a = plan_value b"
  have "inj quest_value"
    by (rule injI) (rule quest_value_inj)
  then have "quests a = quests b"
    using e by (simp add: plan_value_def inj_map_eq_map)
  then show ?thesis
    using e by (simp add: plan_value_def)
qed

lemma theme_value_inj: "theme_value a = theme_value b \<Longrightarrow> a = b"
  by (simp add: theme_value_def)

lemma state_value_inj:
  assumes "state_value a = state_value b"
  shows "a = b"
proof -
  have k: "inj (\<lambda>c. JStr (key_string c))"
    by (rule injI) (simp add: key_string_inj)
  have p: "inj plan_value"
    by (rule injI) (rule plan_value_inj)
  have n: "ascii ''createdAt'' \<noteq> ascii ''theme''"
    by (simp add: ascii_def)
  have "selectedCategories a = selectedCategories b \<and> plans a = plans b
      \<and> createdAt a = createdAt b \<and> theme a = theme b"
    using assms n theme_value_inj
    by (cases "createdAt a"; cases "createdAt b"; cases "theme a"; cases "theme b")
       (auto simp add: state_value_def inj_map_eq_map [OF k] inj_map_eq_map [OF p])
  then show ?thesis by simp
qed

lemma stringify_not_Nil: "stringify v \<noteq> []"
  using length_stringify_pos [of v] by auto

lemma saveState_json_host:
  assumes "\<not> denied ls" and "length (stringify v) \<le> capacity ls"
  shows "saveState (json_host (Some ls)) v
       = Inr (json_host (Some (ls\<lparr>items := (items ls)(STORAGE_KEY \<mapsto> stringify v)\<rparr>)))"
  using assms by (simp add: saveState_def setItem_def json_host_def)

lemma loadState_json_host:
  assumes "\<not> denied ls" and "items ls STORAGE_KEY = Some (stringify v)"
    and "wf_json v" and "v \<noteq> JNull"
  shows "loadState (json_host (Some ls)) = Inr (Some v)"
  using assms
  by (simp add: loadState_def loadState_try_def getItem_def json_host_def stringify_not_Nil
        JSON_parse_text_stringify)

text \<open>
  Claim C7, amended. With \<^verbatim>\<open>JSON.stringify\<close> and \<^verbatim>\<open>JSON.parse\<close> as modelled above,
  in a browser whose store grants access and has room for the text, \<open>loadState\<close>
  right after \<open>saveState\<close> returns the value of the state that was saved, for every
  state; by \<open>state_value_inj\<close> that value belongs to no other state. Without a window
  \<open>saveState\<close> writes nothing and \<open>loadState\<close> returns absent, for every state, so the
  claim holds only where storage is available.
\<close>

theorem load_after_save:
  assumes "\<not> denied ls" and "length (stringify (state_value st)) \<le> capacity ls"
  shows "(\<exists>h'. saveState (json_host (Some ls)) (state_value st) = Inr h'
           \<and> loadState h' = Inr (Some (state_value st)))
     \<and> saveState (json_host None) (state_value st) = Inr (json_host None)
     \<and> loadState (json_host None) = Inr None"
proof -
  let ?ls = "ls\<lparr>items := (items ls)(STORAGE_KEY \<mapsto> stringify (state_value st))\<rparr>"
  have "saveState (json_host (Some ls)) (state_value st) = Inr (json_host (Some ?ls))"
    using assms by (rule saveState_json_host)
  moreover have "loadState (json_host (Some ?ls)) = Inr (Some (state_value st))"
    using assms(1) by (intro loadState_json_host wf_state_value state_value_not_null) simp_all
  moreover have "saveState (json_host None) (state_value st) = Inr (json_host None)"
    "loadState (json_host None) = Inr None"
    by (simp_all add: saveState_def loadState_def json_host_def)
  ultimately show ?thesis by blast
qed

lemma sample_app_length: "length (stringify (state_value sample_app)) = 1905"
  by (simp add: sample_app_def buildWeekPlan_closed pick_titles_eq uid_fresh upt_conv_Cons
        state_value_def plan_value_def quest_value_def theme_value_def
        sample_now_def ascii_def quote_def quote_unit_def is_high_def is_low_def
        decimal.simps del: upt_Suc)

theorem load_after_save_witness:
  "\<not> denied sample_store
   \<and> length (stringify (state_value sample_app)) \<le> capacity sample_store
   \<and> (\<exists>h'. saveState (json_host (Some sample_store)) (state_value sample_app) = Inr h'
          \<and> loadState h' = Inr (Some (state_value sample_app)))
   \<and> saveState (json_host None) (state_value sample_app) = Inr (json_host None)
   \<and> loadState (json_host None) = Inr None"
proof -
  have a: "\<not> denied sample_store"
    by (simp add: sample_store_def)
  have b: "length (stringify (state_value sample_app)) \<le> capacity sample_store"
    by (simp add: sample_store_def sample_app_length)
  show ?thesis
    using load_after_save [OF a b] a b by simp
qed

theorem load_after_save_counterexample:
  "saveState (json_host None) (state_value sample_app) = Inr (json_host None)
   \<and> loadState (json_host None) \<noteq> Inr (Some (state_value sample_app))"
  by (simp add: saveState_def loadState_def json_host_def)

section \<open>The toggles of the page\<close>

lemma find_update_found:
  "find P xs = Some q \<Longrightarrow> P q' \<Longrightarrow> find P (update_found P (\<lambda>_. q') xs) = Some q'"
  by (induction xs) (auto split: if_splits)

lemma update_found_back:
  "find P xs = Some q \<Longrightarrow> P q' \<Longrightarrow> update_found P (\<lambda>_. q) (update_found P (\<lambda>_. q') xs) = xs"
  by (induction xs) (auto split: if_splits)

lemma find_holds: "find P xs = Some q \<Longrightarrow> P q"
  by (induction xs) (auto split: if_splits)

lemma find_hd: "xs \<noteq> [] \<Longrightarrow> P (hd xs) \<Longrightarrow> find P xs = Some (hd xs)"
  by (cases xs) simp_all

lemma plan_at_write_quest:
  "plan_at copy i = Some d \<Longrightarrow>
     plan_at (write_quest copy i P q') i = Some (d\<lparr>quests := update_found P (\<lambda>_. q') (quests d)\<rparr>)"
  by (auto simp add: plan_at_def write_quest_def split: if_splits)

lemma write_quest_back:
  assumes "plan_at copy i = Some d" and "find P (quests d) = Some q" and "P q'"
  shows "write_quest (write_quest copy i P q') i P q = copy"
proof -
  from assms(1) have i: "nat i < length (plans copy)" and d: "d = plans copy ! nat i"
    by (auto simp add: plan_at_def split: if_splits)
  have "update_found P (\<lambda>_. q) (update_found P (\<lambda>_. q') (quests (plans copy ! nat i)))
      = quests (plans copy ! nat i)"
    using assms(2,3) d by (simp add: update_found_back)
  then show ?thesis
    using i by (simp add: write_quest_def)
qed

lemma lookup_write_quest:
  assumes "lookup (Some a) dayIdx P = Some q" and "P q'"
  shows "lookup (Some (write_quest a dayIdx P q')) dayIdx P = Some q'"
proof -
  from assms(1) obtain d where d: "plan_at a dayIdx = Some d" and f: "find P (quests d) = Some q"
    by (auto simp add: lookup_def split: option.splits)
  show ?thesis
    using plan_at_write_quest [OF d, of P q'] find_update_found [OF f assms(2)]
    by (simp add: lookup_def)
qed

lemma toggleDone_found:
  assumes "state p = Some a" and "plan_at a dayIdx = Some d"
    and "find (\<lambda>x. id' x = qid) (quests d) = Some q"
  shows "fst (after (toggleDone dayIdx qid (p, h))) =
     p\<lparr>state := Some (write_quest a dayIdx (\<lambda>x. id' x = qid) (q\<lparr>done := \<not> done q\<rparr>)),
       score := (if \<not> done q then score p + 1 else max 0 (score p - 1))\<rparr>"
  using assms
  by (simp add: toggleDone_def Let_def addScore_def split: sum.splits)

lemma toggleEnabled_found:
  assumes "state p = Some a" and "plan_at a dayIdx = Some d"
    and "find (\<lambda>x. id' x = qid) (quests d) = Some q"
  shows "fst (after (toggleEnabled dayIdx qid (p, h))) =
     p\<lparr>state := Some (write_quest a dayIdx (\<lambda>x. id' x = qid) (q\<lparr>enabled := \<not> enabled q\<rparr>))\<rparr>"
  using assms
  by (simp add: toggleEnabled_def Let_def split: sum.splits)

lemma generate_state:
  "fst (after (generate r now (p, h))) =
     p\<lparr>state := Some \<lparr>selectedCategories = (if selected p \<noteq> [] then selected p else [Undou, Gakushuu]),
                       plans = buildWeekPlan r (if selected p \<noteq> [] then selected p else [Undou, Gakushuu]),
                       createdAt = Some now, theme = None\<rparr>\<rparr>"
  by (simp add: generate_def Let_def split: sum.splits)

lemma toggleDone_lookup:
  assumes "lookup (state p) dayIdx (\<lambda>x. id' x = qid) = Some q"
  shows "lookup (state (fst (after (toggleDone dayIdx qid (p, h))))) dayIdx (\<lambda>x. id' x = qid)
       = Some (q\<lparr>done := \<not> done q\<rparr>)
     \<and> score (fst (after (toggleDone dayIdx qid (p, h))))
       = (if \<not> done q then score p + 1 else max 0 (score p - 1))"
proof -
  from assms obtain a d where a: "state p = Some a" and d: "plan_at a dayIdx = Some d"
    and f: "find (\<lambda>x. id' x = qid) (quests d) = Some q"
    by (auto simp add: lookup_def split: option.splits)
  have "id' (q\<lparr>done := \<not> done q\<rparr>) = qid"
    using find_holds [OF f] by simp
  then show ?thesis
    using toggleDone_found [OF a d f, of h] lookup_write_quest [of a dayIdx "\<lambda>x. id' x = qid" q] assms a
    by simp
qed

lemma toggleEnabled_lookup:
  assumes "lookup (state p) dayIdx (\<lambda>x. id' x = qid) = Some q"
  shows "lookup (state (fst (after (toggleEnabled dayIdx qid (p, h))))) dayIdx (\<lambda>x. id' x = qid)
       = Some (q\<lparr>enabled := \<not> enabled q\<rparr>)
     \<and> score (fst (after (toggleEnabled dayIdx qid (p, h)))) = score p"
proof -
  from assms obtain a d where a: "state p = Some a" and d: "plan_at a dayIdx = Some d"
    and f: "find (\<lambda>x. id' x = qid) (quests d) = Some q"
    by (auto simp add: lookup_def split: option.splits)
  have "id' (q\<lparr>enabled := \<not> enabled q\<rparr>) = qid"
    using find_holds [OF f] by simp
  then show ?thesis
    using toggleEnabled_found [OF a d f, of h] lookup_write_quest [of a dayIdx "\<lambda>x. id' x = qid" q] assms a
    by simp
qed

lemma fresh_plan_first:
  assumes "plans a = buildWeekPlan fresh_random [Undou, Gakushuu]"
  shows "plan_at a 0 = Some (plans a ! 0)"
    and "find (\<lambda>x. id' x = ascii ''a'') (quests (plans a ! 0)) = Some (hd (quests (plans a ! 0)))"
    and "\<not> done (hd (quests (plans a ! 0)))" and "enabled (hd (quests (plans a ! 0)))"
proof -
  let ?plan = "buildWeekPlan fresh_random [Undou, Gakushuu]"
  let ?d = "?plan ! 0"
  have ids: "map id' (quests ?d) = [ascii ''a'', ascii ''b'', ascii ''c'', ascii ''d'']"
    by (simp add: buildWeekPlan_nth take_map [symmetric] forEach_selected_ids uid_fresh
          upt_conv_Cons ascii_def del: forEach_selected.simps)
  then have ne: "quests ?d \<noteq> []" by auto
  from ids have "id' (hd (quests ?d)) = ascii ''a''"
    by (cases "quests ?d") simp_all
  then show "find (\<lambda>x. id' x = ascii ''a'') (quests (plans a ! 0)) = Some (hd (quests (plans a ! 0)))"
    using ne assms by (simp add: find_hd)
  have m: "?d \<in> set ?plan"
    by (simp add: buildWeekPlan_length)
  have "hd (quests ?d) \<in> set (quests ?d)"
    using ne by simp
  then have "\<not> done (hd (quests ?d)) \<and> enabled (hd (quests ?d))"
    using buildWeekPlan_flags [OF m] by blast
  then show "\<not> done (hd (quests (plans a ! 0)))" and "enabled (hd (quests (plans a ! 0)))"
    using assms by simp_all
  show "plan_at a 0 = Some (plans a ! 0)"
    using assms by (simp add: plan_at_def buildWeekPlan_length)
qed

lemma generated_lookup:
  "\<exists>q. lookup (state (fst (after (generate fresh_random now (initial_Page, h))))) 0
          (\<lambda>x. id' x = ascii ''a'') = Some q \<and> \<not> done q \<and> enabled q"
proof -
  let ?a = "\<lparr>selectedCategories = [Undou, Gakushuu],
             plans = buildWeekPlan fresh_random [Undou, Gakushuu],
             createdAt = Some now, theme = None\<rparr>"
  have "plans ?a = buildWeekPlan fresh_random [Undou, Gakushuu]"
    by simp
  from fresh_plan_first [OF this] show ?thesis
    by (simp add: generate_state initial_Page_def lookup_def)
qed

lemma generated_score: "score (fst (after (generate fresh_random now (initial_Page, h)))) = 0"
  by (simp add: generate_state initial_Page_def)

text \<open>
  Claim C3. From any state with a score that is not negative, toggling a quest that is
  not done adds one point, and toggling the same quest again takes the point away:
  after both calls the score and the state are what they were. This holds whether or
  not the writes to the store succeed.
\<close>

theorem toggleDone_round_trip:
  assumes "state p = Some a" and "plan_at a dayIdx = Some d"
    and "find (\<lambda>x. id' x = qid) (quests d) = Some q" and "\<not> done q" and "0 \<le> score p"
  shows "score (fst (after (toggleDone dayIdx qid (p, h)))) = score p + 1
     \<and> score (fst (after (toggleDone dayIdx qid (after (toggleDone dayIdx qid (p, h)))))) = score p
     \<and> state (fst (after (toggleDone dayIdx qid (after (toggleDone dayIdx qid (p, h)))))) = state p"
proof -
  let ?P = "\<lambda>x. id' x = qid"
  let ?r = "q\<lparr>done := \<not> done q\<rparr>"
  let ?b = "write_quest a dayIdx ?P ?r"
  obtain p1 h1 where w1: "after (toggleDone dayIdx qid (p, h)) = (p1, h1)"
    by (cases "after (toggleDone dayIdx qid (p, h))")
  have p1: "p1 = p\<lparr>state := Some ?b, score := score p + 1\<rparr>"
    using toggleDone_found [OF assms(1-3), of h] w1 assms(4) by simp
  have same: "?P ?r"
    using find_holds [OF assms(3)] by simp
  have s1: "state p1 = Some ?b" using p1 by simp
  have d1: "plan_at ?b dayIdx = Some (d\<lparr>quests := update_found ?P (\<lambda>_. ?r) (quests d)\<rparr>)"
    by (rule plan_at_write_quest [OF assms(2)])
  have f1: "find ?P (quests (d\<lparr>quests := update_found ?P (\<lambda>_. ?r) (quests d)\<rparr>)) = Some ?r"
    using find_update_found [OF assms(3) same] by simp
  have undo: "write_quest ?b dayIdx ?P (?r\<lparr>done := \<not> done ?r\<rparr>) = a"
    using write_quest_back [OF assms(2,3) same] by simp
  have p2: "fst (after (toggleDone dayIdx qid (p1, h1))) =
      p1\<lparr>state := Some a, score := max 0 (score p1 - 1)\<rparr>"
    using toggleDone_found [OF s1 d1 f1, of h1] undo assms(4) by simp
  show ?thesis
    using p1 p2 assms(1,5) by (simp add: w1)
qed

theorem toggleDone_round_trip_witness:
  "state sample_page = Some sample_app
   \<and> plan_at sample_app 0 = Some (plans sample_app ! 0)
   \<and> find (\<lambda>x. id' x = ascii ''a'') (quests (plans sample_app ! 0))
        = Some (hd (quests (plans sample_app ! 0)))
   \<and> \<not> done (hd (quests (plans sample_app ! 0)))
   \<and> 0 \<le> score sample_page
   \<and> score (fst (after (toggleDone 0 (ascii ''a'') (sample_page, browser_host Map.empty)))) = 1
   \<and> score (fst (after (toggleDone 0 (ascii ''a'')
        (after (toggleDone 0 (ascii ''a'') (sample_page, browser_host Map.empty)))))) = 0
   \<and> state (fst (after (toggleDone 0 (ascii ''a'')
        (after (toggleDone 0 (ascii ''a'') (sample_page, browser_host Map.empty))))))
        = Some sample_app"
proof -
  have pl: "plans sample_app = buildWeekPlan fresh_random [Undou, Gakushuu]"
    by (simp add: sample_app_def)
  have s: "state sample_page = Some sample_app" and z: "0 \<le> score sample_page"
    and z': "score sample_page = 0"
    by (simp_all add: sample_page_def)
  note f = fresh_plan_first [OF pl]
  show ?thesis
    using toggleDone_round_trip [OF s f(1) f(2) f(3) z, of "browser_host Map.empty"] s f z z'
    by simp
qed

text \<open>
  Claim C2 says that after every operation a quest that is not enabled is not done,
  and that switching a quest off clears its done flag. The page of
  \<^verbatim>\<open>src/app/page.tsx\<close> does not do so: on the page that \<open>generate\<close> leaves,
  marking the first quest of the first day done and then switching it off leaves it
  done and not enabled.
\<close>

theorem toggleEnabled_keeps_done:
  "\<exists>q. lookup (state (fst (after (toggleEnabled 0 (ascii ''a'')
            (after (toggleDone 0 (ascii ''a'')
              (after (generate fresh_random now (initial_Page, h))))))))) 0
          (\<lambda>x. id' x = ascii ''a'') = Some q \<and> done q \<and> \<not> enabled q"
proof -
  obtain q0 where q0: "lookup (state (fst (after (generate fresh_random now (initial_Page, h))))) 0
          (\<lambda>x. id' x = ascii ''a'') = Some q0" "\<not> done q0" "enabled q0"
    using generated_lookup by blast
  obtain p0 h0 where w0: "after (generate fresh_random now (initial_Page, h)) = (p0, h0)"
    by (cases "after (generate fresh_random now (initial_Page, h))")
  obtain p1 h1 where w1: "after (toggleDone 0 (ascii ''a'') (p0, h0)) = (p1, h1)"
    by (cases "after (toggleDone 0 (ascii ''a'') (p0, h0))")
  have l1: "lookup (state p1) 0 (\<lambda>x. id' x = ascii ''a'') = Some (q0\<lparr>done := \<not> done q0\<rparr>)"
    using toggleDone_lookup [of p0 0 "ascii ''a''" q0 h0] q0(1) w0 w1 by simp
  have "lookup (state (fst (after (toggleEnabled 0 (ascii ''a'') (p1, h1))))) 0
      (\<lambda>x. id' x = ascii ''a'')
      = Some (q0\<lparr>done := \<not> done q0, enabled := \<not> enabled (q0\<lparr>done := \<not> done q0\<rparr>)\<rparr>)"
    using toggleEnabled_lookup [OF l1, of h1] by simp
  then show ?thesis
    using q0(2,3) by (simp add: w0 w1)
qed

text \<open>For a day index outside the plans the lookup raises \<open>TypeError\<close>.\<close>

lemma toggleDone_unknown_day:
  "state p = Some a \<Longrightarrow> plan_at a dayIdx = None \<Longrightarrow>
     toggleDone dayIdx qid (p, h) = Escaped TypeError (p, h)"
  by (simp add: toggleDone_def)

text \<open>With a random source that repeats itself every quest of a day has the same id.\<close>

lemma stuck_plan_first:
  assumes "plans a = buildWeekPlan stuck_random [Undou, Gakushuu]"
  shows "plan_at a 0 = Some (plans a ! 0)"
    and "map id' (quests (plans a ! 0)) = [ascii ''i'', ascii ''i'', ascii ''i'', ascii ''i'']"
    and "\<forall>q \<in> set (quests (plans a ! 0)). \<not> done q \<and> enabled q"
proof -
  let ?plan = "buildWeekPlan stuck_random [Undou, Gakushuu]"
  show "map id' (quests (plans a ! 0)) = [ascii ''i'', ascii ''i'', ascii ''i'', ascii ''i'']"
    unfolding assms
    by (simp add: buildWeekPlan_nth take_map [symmetric] forEach_selected_ids uid_stuck
          upt_conv_Cons del: forEach_selected.simps)
  have "?plan ! 0 \<in> set ?plan"
    by (simp add: buildWeekPlan_length)
  then show "\<forall>q \<in> set (quests (plans a ! 0)). \<not> done q \<and> enabled q"
    unfolding assms using buildWeekPlan_flags by blast
  show "plan_at a 0 = Some (plans a ! 0)"
    using assms by (simp add: plan_at_def buildWeekPlan_length)
qed

text \<open>
  Claim C6 says that \<open>toggleDone\<close> on a quest that is not enabled or not found changes
  nothing and raises nothing. The page of \<^verbatim>\<open>src/app/page.tsx\<close> does not check
  \<open>enabled\<close>. Take the random source that repeats itself, so that the four quests of
  the first day all have the id \<^verbatim>\<open>i\<close>, and switch a quest of that day off: the
  lookup finds the first quest, which is now not enabled and not done, while the second
  quest has the same id and is enabled, so its checkbox is live and passes the day 0 and
  the id \<^verbatim>\<open>i\<close>. That call of \<open>toggleDone\<close> marks the first quest, which is not
  enabled, done and raises the score from 0 to 1.
\<close>

theorem toggleDone_flips_disabled:
  "\<exists>a d q0 q1.
      state (fst (after (toggleEnabled 0 (ascii ''i'')
        (after (generate stuck_random now (initial_Page, h)))))) = Some a
    \<and> plan_at a 0 = Some d
    \<and> find (\<lambda>x. id' x = ascii ''i'') (quests d) = Some q0 \<and> \<not> enabled q0 \<and> \<not> done q0
    \<and> 1 < length (quests d) \<and> quests d ! 1 = q1 \<and> id' q1 = ascii ''i'' \<and> enabled q1
    \<and> score (fst (after (toggleEnabled 0 (ascii ''i'')
        (after (generate stuck_random now (initial_Page, h)))))) = 0
    \<and> lookup (state (fst (after (toggleDone 0 (ascii ''i'')
          (after (toggleEnabled 0 (ascii ''i'')
            (after (generate stuck_random now (initial_Page, h))))))))) 0
          (\<lambda>x. id' x = ascii ''i'') = Some (q0\<lparr>done := True\<rparr>)
    \<and> score (fst (after (toggleDone 0 (ascii ''i'')
          (after (toggleEnabled 0 (ascii ''i'')
            (after (generate stuck_random now (initial_Page, h)))))))) = 1"
proof -
  let ?P = "\<lambda>x. id' x = ascii ''i''"
  let ?a0 = "\<lparr>selectedCategories = [Undou, Gakushuu],
             plans = buildWeekPlan stuck_random [Undou, Gakushuu],
             createdAt = Some now, theme = None\<rparr>"
  let ?d0 = "plans ?a0 ! 0"
  obtain p0 h0 where w0: "after (generate stuck_random now (initial_Page, h)) = (p0, h0)"
    by (cases "after (generate stuck_random now (initial_Page, h))")
  have p0: "p0 = initial_Page\<lparr>state := Some ?a0\<rparr>"
    using generate_state [of stuck_random now initial_Page h] w0 by (simp add: initial_Page_def)
  have s0: "state p0 = Some ?a0" and sc0: "score p0 = 0"
    by (simp_all add: p0 initial_Page_def)
  have pl: "plans ?a0 = buildWeekPlan stuck_random [Undou, Gakushuu]" by simp
  note f = stuck_plan_first [OF pl]
  from f(2) obtain x0 x1 x2 x3 where qs: "quests ?d0 = [x0, x1, x2, x3]"
    and ids: "id' x0 = ascii ''i''" "id' x1 = ascii ''i''"
    by (auto simp add: map_eq_Cons_conv)
  have fl: "\<not> done x0" "enabled x0" "enabled x1"
    using f(3) qs by simp_all
  have find0: "find ?P (quests ?d0) = Some x0"
    using qs ids by simp
  obtain p1 h1 where w1: "after (toggleEnabled 0 (ascii ''i'') (p0, h0)) = (p1, h1)"
    by (cases "after (toggleEnabled 0 (ascii ''i'') (p0, h0))")
  let ?y = "x0\<lparr>enabled := False\<rparr>"
  let ?a1 = "write_quest ?a0 0 ?P ?y"
  have p1: "p1 = p0\<lparr>state := Some ?a1\<rparr>"
    using toggleEnabled_found [OF s0 f(1) find0, of h0] w1 fl by simp
  have d1: "plan_at ?a1 0 = Some (?d0\<lparr>quests := [?y, x1, x2, x3]\<rparr>)"
    using plan_at_write_quest [OF f(1), of ?P ?y] qs ids by simp
  have l1: "lookup (state p1) 0 ?P = Some ?y"
    using d1 ids by (simp add: lookup_def p1)
  have t: "lookup (state (fst (after (toggleDone 0 (ascii ''i'') (p1, h1))))) 0 ?P
       = Some (?y\<lparr>done := \<not> done ?y\<rparr>)
     \<and> score (fst (after (toggleDone 0 (ascii ''i'') (p1, h1))))
       = (if \<not> done ?y then score p1 + 1 else max 0 (score p1 - 1))"
    by (rule toggleDone_lookup [OF l1])
  have "state p1 = Some ?a1 \<and> plan_at ?a1 0 = Some (?d0\<lparr>quests := [?y, x1, x2, x3]\<rparr>)
      \<and> find ?P (quests (?d0\<lparr>quests := [?y, x1, x2, x3]\<rparr>)) = Some ?y
      \<and> \<not> enabled ?y \<and> \<not> done ?y
      \<and> 1 < length (quests (?d0\<lparr>quests := [?y, x1, x2, x3]\<rparr>))
      \<and> quests (?d0\<lparr>quests := [?y, x1, x2, x3]\<rparr>) ! 1 = x1 \<and> id' x1 = ascii ''i'' \<and> enabled x1
      \<and> score p1 = 0
      \<and> lookup (state (fst (after (toggleDone 0 (ascii ''i'') (p1, h1))))) 0 ?P
          = Some (?y\<lparr>done := True\<rparr>)
      \<and> score (fst (after (toggleDone 0 (ascii ''i'') (p1, h1)))) = 1"
    using p1 d1 ids fl sc0 t by simp
  then show ?thesis
    unfolding w0 w1 fst_conv by blast
qed

section \<open>The redesigned page: invariant, plan and points\<close>

text \<open>
  The toggles of the redesigned page keep the invariant that a quest that is not
  enabled is not done: \<open>toggleEnabled_v3\<close> clears \<open>done\<close> when it switches a quest
  off, and \<open>toggleDone_v3\<close> leaves a quest that is not enabled, or not found, alone.
\<close>

lemma set_update_found: "set (update_found P (\<lambda>_. q') xs) \<subseteq> insert q' (set xs)"
  by (induction xs) auto

lemma write_quest_members:
  assumes "p \<in> set (plans (write_quest a i P q'))" and "x \<in> set (quests p)"
  shows "x = q' \<or> (\<exists>p' \<in> set (plans a). x \<in> set (quests p'))"
proof (cases "nat i < length (plans a)")
  case True
  from assms(1) have "p = (plans a ! nat i)\<lparr>quests := update_found P (\<lambda>_. q') (quests (plans a ! nat i))\<rparr>
      \<or> p \<in> set (plans a)"
    using set_update_subset_insert [of "plans a" "nat i"] by (auto simp add: write_quest_def)
  then show ?thesis
  proof
    assume "p = (plans a ! nat i)\<lparr>quests := update_found P (\<lambda>_. q') (quests (plans a ! nat i))\<rparr>"
    with assms(2) have "x = q' \<or> x \<in> set (quests (plans a ! nat i))"
      using set_update_found [of P q' "quests (plans a ! nat i)"] by auto
    then show ?thesis using True nth_mem by blast
  next
    assume "p \<in> set (plans a)"
    then show ?thesis using assms(2) by blast
  qed
next
  case False
  then have "plans (write_quest a i P q') = plans a"
    by (simp add: write_quest_def list_update_beyond)
  then show ?thesis using assms by auto
qed

lemma write_quest_invariant:
  assumes "enabled_invariant (Some a)" and "\<not> enabled q' \<longrightarrow> \<not> done q'"
  shows "enabled_invariant (Some (write_quest a i P q'))"
  using assms write_quest_members [of _ a i P q']
  by (fastforce simp add: enabled_invariant_def)

lemma toggleEnabled_v3_found:
  assumes "state p = Some a" and "plan_at a dayIdx = Some d"
    and "find (\<lambda>x. id' x = qid) (quests d) = Some q"
  shows "fst (after (toggleEnabled_v3 dayIdx qid (p, h))) =
     p\<lparr>state := Some (write_quest a dayIdx (\<lambda>x. id' x = qid)
          (if enabled q then q\<lparr>enabled := False, done := False\<rparr> else q\<lparr>enabled := True\<rparr>))\<rparr>"
  using assms
  by (simp add: toggleEnabled_v3_def Let_def split: sum.splits)

lemma toggleDone_v3_found:
  assumes "state p = Some a" and "plan_at a dayIdx = Some d"
    and "find (\<lambda>x. id' x = qid) (quests d) = Some q" and "enabled q"
  shows "fst (after (toggleDone_v3 dayIdx qid (p, h))) =
     p\<lparr>state := Some (write_quest a dayIdx (\<lambda>x. id' x = qid) (q\<lparr>done := \<not> done q\<rparr>))\<rparr>"
  using assms
  by (simp add: toggleDone_v3_def Let_def split: sum.splits)

lemma toggleDone_v3_no_op:
  assumes "state p = Some a" and "plan_at a dayIdx = Some d"
    and "find (\<lambda>x. id' x = qid) (quests d) = None
       \<or> (\<exists>q. find (\<lambda>x. id' x = qid) (quests d) = Some q \<and> \<not> enabled q)"
  shows "toggleDone_v3 dayIdx qid (p, h) = Completed (p, h)"
  using assms by (auto simp add: toggleDone_v3_def)

lemma toggleDone_v3_unknown_day:
  "state p = Some a \<Longrightarrow> plan_at a dayIdx = None \<Longrightarrow>
     toggleDone_v3 dayIdx qid (p, h) = Escaped TypeError (p, h)"
  by (simp add: toggleDone_v3_def)

lemma toggleEnabled_v3_invariant:
  assumes "enabled_invariant (state p)"
  shows "enabled_invariant (state (fst (after (toggleEnabled_v3 dayIdx qid (p, h)))))"
proof (cases "lookup (state p) dayIdx (\<lambda>x. id' x = qid)")
  case None
  then have "fst (after (toggleEnabled_v3 dayIdx qid (p, h))) = p"
    by (auto simp add: toggleEnabled_v3_def lookup_def split: option.splits)
  then show ?thesis using assms by simp
next
  case (Some q)
  then obtain a d where a: "state p = Some a" and d: "plan_at a dayIdx = Some d"
    and f: "find (\<lambda>x. id' x = qid) (quests d) = Some q"
    by (auto simp add: lookup_def split: option.splits)
  show ?thesis
    using toggleEnabled_v3_found [OF a d f, of h] assms a
    by (simp add: write_quest_invariant)
qed

lemma toggleDone_v3_invariant:
  assumes "enabled_invariant (state p)"
  shows "enabled_invariant (state (fst (after (toggleDone_v3 dayIdx qid (p, h)))))"
proof (cases "lookup (state p) dayIdx (\<lambda>x. id' x = qid)")
  case None
  then have "fst (after (toggleDone_v3 dayIdx qid (p, h))) = p"
    by (auto simp add: toggleDone_v3_def lookup_def split: option.splits)
  then show ?thesis using assms by simp
next
  case (Some q)
  then obtain a d where a: "state p = Some a" and d: "plan_at a dayIdx = Some d"
    and f: "find (\<lambda>x. id' x = qid) (quests d) = Some q"
    by (auto simp add: lookup_def split: option.splits)
  show ?thesis
  proof (cases "enabled q")
    case True
    then show ?thesis
      using toggleDone_v3_found [OF a d f True, of h] assms a
      by (simp add: write_quest_invariant)
  next
    case False
    then have "toggleDone_v3 dayIdx qid (p, h) = Completed (p, h)"
      using toggleDone_v3_no_op [OF a d] f by simp
    then show ?thesis using assms by simp
  qed
qed

lemma toggleEnabled_v3_forces_not_done:
  assumes "lookup (state p) dayIdx (\<lambda>x. id' x = qid) = Some q" and "enabled q"
  shows "\<exists>q'. lookup (state (fst (after (toggleEnabled_v3 dayIdx qid (p, h))))) dayIdx
            (\<lambda>x. id' x = qid) = Some q' \<and> \<not> enabled q' \<and> \<not> done q'"
proof -
  from assms(1) obtain a d where a: "state p = Some a" and d: "plan_at a dayIdx = Some d"
    and f: "find (\<lambda>x. id' x = qid) (quests d) = Some q"
    by (auto simp add: lookup_def split: option.splits)
  have "id' (q\<lparr>enabled := False, done := False\<rparr>) = qid"
    using find_holds [OF f] by simp
  then show ?thesis
    using toggleEnabled_v3_found [OF a d f, of h] assms a
      lookup_write_quest [of a dayIdx "\<lambda>x. id' x = qid" q "q\<lparr>enabled := False, done := False\<rparr>"]
    by simp
qed

lemma resetAll_invariant:
  "enabled_invariant (state (fst (after (resetAll (p, h)))))"
  by (simp add: resetAll_def Let_def enabled_invariant_def split: option.splits sum.splits)


text \<open>
  Its generator draws more random numbers but builds the same plan: seven days, each
  with \<open>min (2 * k) 5\<close> quests that are enabled and not done, with the same titles.
\<close>

lemma push_titles_v3_titles:
  "map title (fst (push_titles_v3 ts r cat j tt n qs)) = map title qs @ tt"
  by (induction tt arbitrary: j n qs) (simp_all add: Let_def)

lemma push_titles_v3_flags:
  "q \<in> set (fst (push_titles_v3 ts r cat j tt n qs)) \<Longrightarrow> q \<in> set qs \<or> (\<not> done q \<and> enabled q)"
proof (induction tt arbitrary: j n qs)
  case Nil
  then show ?case by simp
next
  case (Cons t tt)
  let ?q = "\<lparr>id' = uid (\<lambda>m. ts (r m)) n, title = t, done = False, enabled = True,
             category = Some (key_string cat),
             points = Some (POINTS_PER_QUEST + (if j = 1 then 5 else 0)),
             progress = (if r (n + 1) < 3 / 10 then Some (\<lfloor>r (n + 2) * 70\<rfloor> + 10) else None),
             locked = Some False, note = None\<rparr>"
  from Cons.prems have "q \<in> set (fst (push_titles_v3 ts r cat (Suc j) tt
      (if r (n + 1) < 3 / 10 then n + 3 else n + 2) (qs @ [?q])))"
    by (simp only: push_titles_v3.simps Let_def)
  then have "q \<in> set (qs @ [?q]) \<or> (\<not> done q \<and> enabled q)"
    by (rule Cons.IH)
  then show ?case by auto
qed

lemma forEach_selected_v3_titles:
  "map title (fst (forEach_selected_v3 ts r i idx cats n qs)) =
     map title qs @ concat (map (\<lambda>(k, cat). pick_titles i k cat) (enumerate idx cats))"
  by (induction cats arbitrary: idx n qs) (simp_all add: split_beta push_titles_v3_titles)

lemma forEach_selected_v3_flags:
  "q \<in> set (fst (forEach_selected_v3 ts r i idx cats n qs)) \<Longrightarrow>
     q \<in> set qs \<or> (\<not> done q \<and> enabled q)"
proof (induction cats arbitrary: idx n qs)
  case Nil
  then show ?case by simp
next
  case (Cons cat cats)
  from Cons.prems
  have "q \<in> set (fst (push_titles_v3 ts r cat 0 (pick_titles i idx cat) n qs))
      \<or> (\<not> done q \<and> enabled q)"
    using Cons.IH by (auto simp add: split_beta)
  then show ?case
    using push_titles_v3_flags by blast
qed

lemma days_loop_v3_closed:
  "i \<le> 8 \<Longrightarrow> \<exists>ns. length ns = 8 - i \<and> days_loop_v3 ts r cats i n days =
     days @ map (\<lambda>(d, m). \<lparr>day = d, quests = take 5 (fst (forEach_selected_v3 ts r d 0 cats m []))\<rparr>)
              (zip [i..<8] ns)"
proof (induction "8 - i" arbitrary: i n days)
  case 0
  then have "i = 8" by simp
  then show ?case by (simp add: days_loop_v3.simps)
next
  case (Suc k)
  then have i: "i \<le> 7" and k: "k = 8 - Suc i" and i8: "Suc i \<le> 8" by simp_all
  have up: "[i..<8] = i # [Suc i..<8]" using i by (simp add: upt_conv_Cons)
  let ?n' = "snd (forEach_selected_v3 ts r i 0 cats n [])"
  let ?day = "\<lparr>day = i, quests = take 5 (fst (forEach_selected_v3 ts r i 0 cats n []))\<rparr>"
  have step: "days_loop_v3 ts r cats i n days = days_loop_v3 ts r cats (Suc i) ?n' (days @ [?day])"
    using i
    by (subst days_loop_v3.simps) (simp add: split_beta Let_def slice_def)
  from Suc.hyps(1) [OF k i8, of ?n' "days @ [?day]"]
  obtain ns where ns: "length ns = 8 - Suc i"
    and eq: "days_loop_v3 ts r cats (Suc i) ?n' (days @ [?day]) =
      (days @ [?day]) @ map (\<lambda>(d, m). \<lparr>day = d, quests = take 5 (fst (forEach_selected_v3 ts r d 0 cats m []))\<rparr>)
              (zip [Suc i..<8] ns)"
    by blast
  have "length (n # ns) = 8 - i" using ns i by simp
  moreover have "days_loop_v3 ts r cats i n days =
      days @ map (\<lambda>(d, m). \<lparr>day = d, quests = take 5 (fst (forEach_selected_v3 ts r d 0 cats m []))\<rparr>)
              (zip [i..<8] (n # ns))"
    by (simp only: step eq up zip_Cons_Cons list.map append_assoc append_Cons append_Nil
          prod.case)
  ultimately show ?case by blast
qed

lemma buildWeekPlan_v3_length: "length (buildWeekPlan_v3 ts r cats) = 7"
  using days_loop_v3_closed [of 1 ts r cats 0 "[]"]
  by (auto simp add: buildWeekPlan_v3_def simp del: upt_Suc)

lemma buildWeekPlan_v3_nth:
  assumes "i < 7"
  shows "\<exists>m. buildWeekPlan_v3 ts r cats ! i =
     \<lparr>day = Suc i, quests = take 5 (fst (forEach_selected_v3 ts r (Suc i) 0 cats m []))\<rparr>"
proof -
  from days_loop_v3_closed [of 1 ts r cats 0 "[]"]
  obtain ns where ns: "length ns = 7"
    and eq: "buildWeekPlan_v3 ts r cats =
      map (\<lambda>(d, m). \<lparr>day = d, quests = take 5 (fst (forEach_selected_v3 ts r d 0 cats m []))\<rparr>)
              (zip [1..<8] ns)"
    by (auto simp add: buildWeekPlan_v3_def simp del: upt_Suc)
  have "buildWeekPlan_v3 ts r cats ! i =
      \<lparr>day = Suc i, quests = take 5 (fst (forEach_selected_v3 ts r (Suc i) 0 cats (ns ! i) []))\<rparr>"
    using assms ns by (simp add: eq del: upt_Suc)
  then show ?thesis by blast
qed

lemma length_forEach_selected_v3:
  "length (fst (forEach_selected_v3 ts r i idx cats n qs)) = length qs + 2 * length cats"
proof -
  have "length (map title (fst (forEach_selected_v3 ts r i idx cats n qs))) =
      length qs + length (concat (map (\<lambda>(k, cat). pick_titles i k cat) (enumerate idx cats)))"
    by (simp only: forEach_selected_v3_titles length_append length_map)
  also have "length (concat (map (\<lambda>(k, cat). pick_titles i k cat) (enumerate idx cats)))
      = 2 * length cats"
    by (induction cats arbitrary: idx) (simp_all add: pick_titles_eq)
  finally show ?thesis by simp
qed

lemma buildWeekPlan_v3_shape:
  "length (buildWeekPlan_v3 ts r cats) = 7
   \<and> (\<forall>p \<in> set (buildWeekPlan_v3 ts r cats).
         length (quests p) = min (2 * length cats) 5
       \<and> (\<forall>q \<in> set (quests p). \<not> done q \<and> enabled q))"
proof -
  have "length (quests p) = min (2 * length cats) 5 \<and> (\<forall>q \<in> set (quests p). \<not> done q \<and> enabled q)"
    if "p \<in> set (buildWeekPlan_v3 ts r cats)" for p
  proof -
    from that obtain i where "i < 7" and "p = buildWeekPlan_v3 ts r cats ! i"
      by (metis buildWeekPlan_v3_length in_set_conv_nth)
    then obtain m where
      p: "p = \<lparr>day = Suc i, quests = take 5 (fst (forEach_selected_v3 ts r (Suc i) 0 cats m []))\<rparr>"
      using buildWeekPlan_v3_nth by blast
    have "\<not> done q \<and> enabled q" if "q \<in> set (quests p)" for q
      using that forEach_selected_v3_flags [of q ts r "Suc i" 0 cats m "[]"]
      by (auto simp add: p dest: in_set_takeD)
    then show ?thesis
      by (simp add: p length_forEach_selected_v3 min.commute)
  qed
  then show ?thesis
    by (simp add: buildWeekPlan_v3_length)
qed

lemma buildWeekPlan_v3_titles:
  assumes "1 \<le> i" and "i \<le> 7"
  shows "day (buildWeekPlan_v3 ts r cats ! (i - 1)) = i
     \<and> map title (quests (buildWeekPlan_v3 ts r cats ! (i - 1))) =
         take 5 (concat (map (\<lambda>(idx, cat).
            [TEMPLATE_QUESTS cat ! ((i + idx) mod length (TEMPLATE_QUESTS cat)),
             TEMPLATE_QUESTS cat ! ((i + idx + 1) mod length (TEMPLATE_QUESTS cat))])
           (enumerate 0 cats)))"
proof -
  from assms obtain k where k: "i = Suc k" "k < 7"
    by (cases i) simp_all
  obtain m where
    p: "buildWeekPlan_v3 ts r cats ! k =
      \<lparr>day = Suc k, quests = take 5 (fst (forEach_selected_v3 ts r (Suc k) 0 cats m []))\<rparr>"
    using buildWeekPlan_v3_nth [OF k(2)] by blast
  have e: "(\<lambda>(idx, cat). pick_titles i idx cat) =
      (\<lambda>(idx, cat).
            [TEMPLATE_QUESTS cat ! ((i + idx) mod length (TEMPLATE_QUESTS cat)),
             TEMPLATE_QUESTS cat ! ((i + idx + 1) mod length (TEMPLATE_QUESTS cat))])"
    by (simp add: fun_eq_iff pick_titles_eq)
  have "map title (quests (buildWeekPlan_v3 ts r cats ! k)) =
      take 5 (concat (map (\<lambda>(idx, cat). pick_titles i idx cat) (enumerate 0 cats)))"
    by (simp add: p k(1) take_map [symmetric] forEach_selected_v3_titles)
  moreover have "day (buildWeekPlan_v3 ts r cats ! k) = i"
    by (simp add: p k(1))
  moreover have "i - 1 = k" using k by simp
  ultimately show ?thesis
    by (simp only: e simp_thms)
qed

lemma generate_v3_invariant:
  "enabled_invariant (state (fst (after (generate_v3 ts r now (p, h)))))"
proof -
  have "state (fst (after (generate_v3 ts r now (p, h)))) =
      Some \<lparr>selectedCategories = (if selected p \<noteq> [] then selected p else [Undou, Gakushuu]),
            plans = buildWeekPlan_v3 ts r (if selected p \<noteq> [] then selected p else [Undou, Gakushuu]),
            createdAt = Some now, theme = None\<rparr>"
    by (simp add: generate_v3_def Let_def split: sum.splits)
  then show ?thesis
    using buildWeekPlan_v3_shape [of ts r]
    by (simp add: enabled_invariant_def)
qed


text \<open>
  Its points are ten for every quest that is enabled and done: toggling a quest that
  is enabled and not done adds ten, and toggling it again gives the former total.
\<close>

lemma count_update_found:
  "find F xs = Some q \<Longrightarrow> \<not> P q \<Longrightarrow> P q' \<Longrightarrow>
     length (filter P (update_found F (\<lambda>_. q') xs)) = Suc (length (filter P xs))"
  by (induction xs) (auto split: if_splits)

lemma count_write_quest:
  assumes "plan_at a i = Some d" and "find F (quests d) = Some q" and "\<not> P q" and "P q'"
  shows "length (filter P (concat (map quests (plans (write_quest a i F q'))))) =
     Suc (length (filter P (concat (map quests (plans a)))))"
proof -
  from assms(1) have i: "nat i < length (plans a)" and d: "plans a ! nat i = d"
    by (auto simp add: plan_at_def split: if_splits)
  let ?d' = "d\<lparr>quests := update_found F (\<lambda>_. q') (quests d)\<rparr>"
  have old: "plans a = take (nat i) (plans a) @ d # drop (Suc (nat i)) (plans a)"
    using id_take_nth_drop [OF i] d by simp
  have new: "plans (write_quest a i F q') = take (nat i) (plans a) @ ?d' # drop (Suc (nat i)) (plans a)"
    using upd_conv_take_nth_drop [OF i] d by (simp add: write_quest_def)
  have "length (filter P (concat (map quests (take (nat i) (plans a) @ ?d' # drop (Suc (nat i)) (plans a)))))
      = Suc (length (filter P (concat (map quests (take (nat i) (plans a) @ d # drop (Suc (nat i)) (plans a))))))"
    using count_update_found [OF assms(2,3,4)] by simp
  then show ?thesis
    using old new by simp
qed

lemma toggleDone_v3_round_trip:
  assumes "state p = Some a" and "plan_at a dayIdx = Some d"
    and "find (\<lambda>x. id' x = qid) (quests d) = Some q" and "\<not> done q" and "enabled q"
  shows "totalPoints (fst (after (toggleDone_v3 dayIdx qid (p, h)))) = totalPoints p + POINTS_PER_QUEST
     \<and> totalPoints (fst (after (toggleDone_v3 dayIdx qid (after (toggleDone_v3 dayIdx qid (p, h))))))
        = totalPoints p
     \<and> state (fst (after (toggleDone_v3 dayIdx qid (after (toggleDone_v3 dayIdx qid (p, h))))))
        = state p"
proof -
  let ?P = "\<lambda>x. id' x = qid"
  let ?r = "q\<lparr>done := \<not> done q\<rparr>"
  let ?b = "write_quest a dayIdx ?P ?r"
  obtain p1 h1 where w1: "after (toggleDone_v3 dayIdx qid (p, h)) = (p1, h1)"
    by (cases "after (toggleDone_v3 dayIdx qid (p, h))")
  have p1: "p1 = p\<lparr>state := Some ?b\<rparr>"
    using toggleDone_v3_found [OF assms(1-3,5), of h] w1 by simp
  have same: "?P ?r"
    using find_holds [OF assms(3)] by simp
  have s1: "state p1 = Some ?b" using p1 by simp
  have d1: "plan_at ?b dayIdx = Some (d\<lparr>quests := update_found ?P (\<lambda>_. ?r) (quests d)\<rparr>)"
    by (rule plan_at_write_quest [OF assms(2)])
  have f1: "find ?P (quests (d\<lparr>quests := update_found ?P (\<lambda>_. ?r) (quests d)\<rparr>)) = Some ?r"
    using find_update_found [OF assms(3) same] by simp
  have e1: "enabled ?r" using assms(5) by simp
  have undo: "write_quest ?b dayIdx ?P (?r\<lparr>done := \<not> done ?r\<rparr>) = a"
    using write_quest_back [OF assms(2,3) same] by simp
  have p2: "fst (after (toggleDone_v3 dayIdx qid (p1, h1))) = p1\<lparr>state := Some a\<rparr>"
    using toggleDone_v3_found [OF s1 d1 f1 e1, of h1] undo by simp
  have up: "totalPoints p1 = totalPoints p + POINTS_PER_QUEST"
    using count_write_quest [OF assms(2,3), of "\<lambda>q. enabled q \<and> done q" ?r] assms(1,4,5)
    by (simp add: totalPoints_def p1 Let_def algebra_simps)
  show ?thesis
    using p1 p2 up assms(1) by (simp add: w1 totalPoints_def)
qed


section \<open>The stored score\<close>

text \<open>
  The stored score of \<^verbatim>\<open>src/app/page.tsx\<close> starts at 0 and no handler makes it
  negative. \<open>handleQuestCompletion\<close> would add ten on every call.
\<close>

lemma toggleDone_score_nonneg:
  "0 \<le> score p \<Longrightarrow> 0 \<le> score (fst (after (toggleDone dayIdx qid (p, h))))"
  by (simp add: toggleDone_def Let_def addScore_def split: option.splits sum.splits)

lemma toggleEnabled_score:
  "score (fst (after (toggleEnabled dayIdx qid (p, h)))) = score p"
  by (simp add: toggleEnabled_def Let_def split: option.splits sum.splits)

lemma resetAll_score:
  "score (fst (after (resetAll (p, h)))) = score p"
  by (simp add: resetAll_def Let_def split: option.splits sum.splits)

lemma generate_score:
  "score (fst (after (generate r now (p, h)))) = score p"
  by (simp add: generate_state)

lemma handleQuestCompletion_score:
  "handleQuestCompletion dayIdx qid (p, h) = Completed (p', h') \<Longrightarrow> score p' = score p + 10"
  by (auto simp add: handleQuestCompletion_def addScore_def Let_def split: outcome.splits)

end
